theory Spec2Isabelle
  imports Main "HOL-Library.Word" "HOL-Library.AList"
begin

section \<open>Palmtree run-data decoder (src/Python/palmtree.py, src/Python/misc.py)\<close>

text \<open>
  A shallow embedding of \<^verbatim>\<open>load_data\<close>, \<^verbatim>\<open>__read_packages\<close> and
  \<^verbatim>\<open>_allocate_array\<close> of palmtree.py and of \<^verbatim>\<open>allocate_array\<close> of misc.py.
  The file on disk is the list of its bytes, the read cursor (\<^verbatim>\<open>file.tell()\<close>) is a
  natural number that every read returns updated, the header dictionary is an association
  list in insertion order, and every Python exception is a value \<open>Inl e\<close>.
  \<^verbatim>\<open>load_data\<close> itself catches every exception and returns \<^verbatim>\<open>(None, None)\<close>.
  The model starts after \<^verbatim>\<open>open(filepath, "rb")\<close> has succeeded: its input is the
  content of an existing, readable file.
\<close>

subsection \<open>Bytes, the read cursor and decoding\<close>

type_synonym byte = "8 word"
type_synonym fbytes = "byte list"

datatype exn =
    TypeError | ValueError | StructError | UnicodeDecodeError | ZeroDivisionError
  | IndexError | UnboundLocalError | MemoryError

text \<open>\<^verbatim>\<open>file.read(n)\<close> at cursor \<open>p\<close>: the bytes that are there (fewer than \<open>n\<close> at the
  end of the file) and the cursor after them.\<close>

definition fread :: "fbytes \<Rightarrow> nat \<Rightarrow> nat \<Rightarrow> byte list \<times> nat" where
  "fread f p n = (let bs = take n (drop p f) in (bs, p + length bs))"

text \<open>\<^verbatim>\<open>int.from_bytes(bs, byteorder='little')\<close>; the empty byte string gives 0.\<close>

definition from_bytes :: "byte list \<Rightarrow> nat" where
  "from_bytes bs = foldr (\<lambda>b n. unat b + 256 * n) bs 0"

text \<open>A float64 cell of the data matrix or of the header. No arithmetic is ever done on
  the decoded doubles, so a double read with \<^verbatim>\<open>'<d'\<close> is kept as its 64-bit pattern;
  \<open>IntVal n\<close> is the float of the integer \<open>n\<close> (a 4-byte sample id, exact in float64) and
  \<open>NaN\<close> is \<^verbatim>\<open>np.nan\<close>, the default fill value.\<close>

datatype cell = NaN | IntVal nat | Dbl "64 word"

text \<open>\<^verbatim>\<open>struct.unpack('<d', bs)[0]\<close>: raises struct.error unless there are 8 bytes.\<close>

definition unpack_d :: "byte list \<Rightarrow> exn + 64 word" where
  "unpack_d bs = (if length bs = 8 then Inr (word_of_nat (from_bytes bs)) else Inl StructError)"

text \<open>\<^verbatim>\<open>bs.decode('ascii')\<close>: raises UnicodeDecodeError on a byte above 127.\<close>

definition decode_ascii :: "byte list \<Rightarrow> exn + string" where
  "decode_ascii bs =
     (if list_all (\<lambda>b. unat b < 128) bs then Inr (map (char_of \<circ> unat) bs)
      else Inl UnicodeDecodeError)"

text \<open>\<^verbatim>\<open>str.lower()\<close> on a string of ASCII characters.\<close>

definition lower :: "string \<Rightarrow> string" where
  "lower s = map (\<lambda>c. if 65 \<le> (of_char c :: nat) \<and> (of_char c :: nat) \<le> 90
                        then char_of ((of_char c :: nat) + 32) else c) s"

text \<open>\<^verbatim>\<open>s.split(d)\<close> for a one-character separator: the empty string gives \<open>['']\<close>.\<close>

fun split_on :: "char \<Rightarrow> string \<Rightarrow> string list" where
  "split_on d [] = [[]]"
| "split_on d (c # cs) =
     (if c = d then [] # split_on d cs
      else (case split_on d cs of [] \<Rightarrow> [[c]] | w # ws \<Rightarrow> (c # w) # ws))"

text \<open>\<^verbatim>\<open>np.fromfile(file, dtype='<d', count=k)\<close> at cursor \<open>p\<close>: \<open>k\<close> little-endian doubles,
  or as many whole doubles as the file still holds; the cursor moves past them.\<close>

definition fromfile :: "fbytes \<Rightarrow> nat \<Rightarrow> nat \<Rightarrow> cell list \<times> nat" where
  "fromfile f p k =
     (let n = min k ((length f - p) div 8)
      in (map (\<lambda>i. Dbl (word_of_nat (from_bytes (take 8 (drop (p + 8 * i) f))))) [0..<n],
          p + 8 * n))"

subsection \<open>The header dictionary\<close>

datatype hval =
    HInt int | HStr string | HBool bool | HFloat "64 word"
  | HInts "int list" | HStrs "string list"

type_synonym header = "(string \<times> hval) list"

text \<open>\<^verbatim>\<open>header[k] = v\<close>, \<^verbatim>\<open>k in header\<close> and \<^verbatim>\<open>header[k]\<close> for an integer, a boolean and
  a list field. Both functions below read only keys that they or \<^verbatim>\<open>load_data\<close> stored
  before, so Python's KeyError has no branch and the default of an absent key is never
  what a caller sees.\<close>

definition hset :: "header \<Rightarrow> string \<Rightarrow> hval \<Rightarrow> header" where
  "hset h k v = AList.update k v h"

definition has_key :: "header \<Rightarrow> string \<Rightarrow> bool" where
  "has_key h k = (map_of h k \<noteq> None)"

definition hint :: "header \<Rightarrow> string \<Rightarrow> int" where
  "hint h k = (case map_of h k of Some (HInt n) \<Rightarrow> n | _ \<Rightarrow> 0)"

definition hnat :: "header \<Rightarrow> string \<Rightarrow> nat" where
  "hnat h k = nat (hint h k)"

definition hbool :: "header \<Rightarrow> string \<Rightarrow> bool" where
  "hbool h k = (case map_of h k of Some (HBool b) \<Rightarrow> b | _ \<Rightarrow> False)"

definition hints :: "header \<Rightarrow> string \<Rightarrow> int list" where
  "hints h k = (case map_of h k of Some (HInts xs) \<Rightarrow> xs | _ \<Rightarrow> [])"

definition hstr :: "header \<Rightarrow> string \<Rightarrow> string" where
  "hstr h k = (case map_of h k of Some (HStr s) \<Rightarrow> s | _ \<Rightarrow> [])"

subsection \<open>The data matrix and the numpy assignments the decoder uses\<close>

text \<open>A two-dimensional float64 array: its rows, and its number of columns (kept apart,
  since an array may have no row).\<close>

record matrix =
  ncols :: nat
  rows :: "cell list list"

definition nrows :: "matrix \<Rightarrow> nat" where
  "nrows m = length (rows m)"

definition filled :: "nat \<Rightarrow> nat \<Rightarrow> cell \<Rightarrow> matrix" where
  "filled r c v = \<lparr>ncols = c, rows = replicate r (replicate c v)\<rparr>"

text \<open>\<^verbatim>\<open>data[i, j] = v\<close> with integer indices: IndexError out of range.\<close>

definition set_cell :: "matrix \<Rightarrow> nat \<Rightarrow> nat \<Rightarrow> cell \<Rightarrow> exn + matrix" where
  "set_cell m i j v =
     (if i < nrows m \<and> j < ncols m
      then Inr (m\<lparr>rows := (rows m)[i := (rows m ! i)[j := v]]\<rparr>)
      else Inl IndexError)"

text \<open>\<^verbatim>\<open>data[r0:r1, j] = v\<close> with a scalar \<open>v\<close>: the row slice is clipped to the array, the
  column index is checked.\<close>

definition set_col :: "matrix \<Rightarrow> nat \<Rightarrow> nat \<Rightarrow> nat \<Rightarrow> cell \<Rightarrow> exn + matrix" where
  "set_col m r0 r1 j v =
     (if j < ncols m
      then Inr (m\<lparr>rows := map (\<lambda>i. if r0 \<le> i \<and> i < r1 then (rows m ! i)[j := v] else rows m ! i)
                              [0..<nrows m]\<rparr>)
      else Inl IndexError)"

text \<open>\<^verbatim>\<open>data[i, c0:c1] = vals\<close> with a one-dimensional array: the column slice is clipped,
  and \<open>vals\<close> must have the width of the slice or one element (broadcast), else
  ValueError.\<close>

definition set_row :: "matrix \<Rightarrow> nat \<Rightarrow> nat \<Rightarrow> nat \<Rightarrow> cell list \<Rightarrow> exn + matrix" where
  "set_row m i c0 c1 vals =
     (if i < nrows m then
        (if length vals = min c1 (ncols m) - min c0 (ncols m) \<or> length vals = 1
         then Inr (m\<lparr>rows := (rows m)[i :=
                 map (\<lambda>j. if c0 \<le> j \<and> j < c1
                           then vals ! (if length vals = 1 then 0 else j - c0)
                           else rows m ! i ! j) [0..<ncols m]]\<rparr>)
         else Inl ValueError)
      else Inl IndexError)"

text \<open>\<^verbatim>\<open>data[r0:r1, c0:c1] = blk\<close> with a two-dimensional array: both slices are clipped,
  and each dimension of \<open>blk\<close> must equal that of the clipped target or be 1 (broadcast),
  else ValueError ("could not broadcast input array").\<close>

definition set_block :: "matrix \<Rightarrow> nat \<Rightarrow> nat \<Rightarrow> nat \<Rightarrow> nat \<Rightarrow> matrix \<Rightarrow> exn + matrix" where
  "set_block m r0 r1 c0 c1 blk =
     (if (nrows blk = min r1 (nrows m) - min r0 (nrows m) \<or> nrows blk = 1) \<and>
         (ncols blk = min c1 (ncols m) - min c0 (ncols m) \<or> ncols blk = 1)
      then Inr (m\<lparr>rows := map (\<lambda>i.
                 if r0 \<le> i \<and> i < r1
                 then map (\<lambda>j. if c0 \<le> j \<and> j < c1
                                then rows blk ! (if nrows blk = 1 then 0 else i - r0)
                                              ! (if ncols blk = 1 then 0 else j - c0)
                                else rows m ! i ! j) [0..<ncols m]
                 else rows m ! i) [0..<nrows m]\<rparr>)
      else Inl ValueError)"

text \<open>\<^verbatim>\<open>np.reshape(vals, (-1, n))\<close>: ValueError when \<open>n\<close> is 0 (the free dimension cannot be
  inferred) or does not divide the number of values.\<close>

definition reshape :: "cell list \<Rightarrow> nat \<Rightarrow> exn + matrix" where
  "reshape vals n =
     (if n = 0 \<or> length vals mod n \<noteq> 0 then Inl ValueError
      else Inr \<lparr>ncols = n,
                rows = map (\<lambda>i. take n (drop (i * n) vals)) [0..<length vals div n]\<rparr>)"

subsection \<open>The allocators: \<^verbatim>\<open>_allocate_array\<close> (palmtree.py) and \<^verbatim>\<open>allocate_array\<close> (misc.py)\<close>

text \<open>What the allocators see of the machine: \<^verbatim>\<open>virtual_memory().available\<close> and whether
  \<^verbatim>\<open>np.empty\<close> can reserve a given number of bytes (it raises MemoryError when it
  cannot).\<close>

record env =
  mem_available :: nat
  np_empty_ok :: "nat \<Rightarrow> bool"

text \<open>\<^verbatim>\<open>_allocate_array(dimensions, fill_value, dtype='float64', check_mem)\<close>, lines 376-415.
  \<^verbatim>\<open>np.empty\<close> raises ValueError on a negative dimension, which the function does not
  catch. The handler of MemoryError formats \<^verbatim>\<open>mem.used\<close>: \<open>mem\<close> is assigned only by the
  memory check, after \<^verbatim>\<open>np.empty\<close>, so a MemoryError of \<^verbatim>\<open>np.empty\<close> itself ends in an
  UnboundLocalError, and only the MemoryError raised by the check returns None.\<close>

definition allocate_array_palmtree :: "env \<Rightarrow> int \<times> int \<Rightarrow> cell \<Rightarrow> bool \<Rightarrow> exn + matrix option" where
  "allocate_array_palmtree e dimensions fill_value check_mem =
     (let (r, c) = dimensions in
      if r < 0 \<or> c < 0 then Inl ValueError
      else
        let data_bytes_needed = 8 * nat r * nat c in
        if np_empty_ok e data_bytes_needed then
          (if check_mem \<and> mem_available e \<le> data_bytes_needed then Inr None
           else Inr (Some (filled (nat r) (nat c) fill_value)))
        else Inl UnboundLocalError)"

text \<open>\<^verbatim>\<open>allocate_array(dimensions, fill_value, dtype='float64')\<close> of misc.py, lines 20-56: the
  same, with the memory check always made.\<close>

definition allocate_array_misc :: "env \<Rightarrow> int \<times> int \<Rightarrow> cell \<Rightarrow> exn + matrix option" where
  "allocate_array_misc e dimensions fill_value =
     (let (r, c) = dimensions in
      if r < 0 \<or> c < 0 then Inl ValueError
      else
        let data_bytes_needed = 8 * nat r * nat c in
        if np_empty_ok e data_bytes_needed then
          (if mem_available e \<le> data_bytes_needed then Inr None
           else Inr (Some (filled (nat r) (nat c) fill_value)))
        else Inl UnboundLocalError)"

subsection \<open>The header: lines 48-92 of \<^verbatim>\<open>load_data\<close>\<close>

text \<open>The loop over the streams, lines 82-84: one byte of data type and two bytes of
  samples per package for each stream.\<close>

fun read_streams :: "fbytes \<Rightarrow> nat \<Rightarrow> nat \<Rightarrow> int list \<times> int list \<times> nat" where
  "read_streams f p 0 = ([], [], p)"
| "read_streams f p (Suc n) =
     (let (b1, p1) = fread f p 1;
          (b2, p2) = fread f p1 2;
          (ts, ss, p') = read_streams f p2 n
      in (int (from_bytes b1) # ts, int (from_bytes b2) # ss, p'))"

text \<open>The header and the cursor after it. Line 58 builds its log message as
  \<^verbatim>\<open>'Error: unknown data version ' + header['version']\<close>, a \<open>str\<close> plus an \<open>int\<close>: that
  raises TypeError before \<^verbatim>\<open>return header, None\<close> on line 59 is reached.\<close>

definition read_header :: "fbytes \<Rightarrow> exn + (header \<times> nat)" where
  "read_header f =
     (let header = [(''file_size'', HInt (int (length f)))];
          (b, p) = fread f 0 4;
          version = from_bytes b;
          header = hset header ''version'' (HInt (int version))
      in
      if version = 1 \<or> version = 2 \<or> version = 3 then
        (let (b, p) = fread f p 3 in
         case decode_ascii b of Inl e \<Rightarrow> Inl e | Inr code \<Rightarrow>
         (let header = hset header ''code'' (HStr code);
              (header, p) =
                (if version = 2 \<or> version = 3 then
                   (let (b1, p1) = fread f p 8;
                        (b2, p2) = fread f p1 8
                    in (hset (hset header ''run_start_epoch'' (HInt (int (from_bytes b1))))
                          ''file_start_epoch'' (HInt (int (from_bytes b2))), p2))
                 else (header, p));
              (header, p) =
                (if lower code = ''src'' \<and> version = 3 then
                   (let (b, p1) = fread f p 1
                    in (hset header ''includes_source_input_time'' (HBool (from_bytes b \<noteq> 0)), p1))
                 else (header, p));
              (b, p) = fread f p 8
          in
          case unpack_d b of Inl e \<Rightarrow> Inl e | Inr sample_rate \<Rightarrow>
          (let header = hset header ''sample_rate'' (HFloat sample_rate);
               (b, p) = fread f p 4;
               header = hset header ''num_playback_streams'' (HInt (int (from_bytes b)));
               (header, p) =
                 (if version = 2 \<or> version = 3 then
                    (let (b, p1) = fread f p 4;
                         num_streams = from_bytes b;
                         (ts, ss, p2) = read_streams f p1 num_streams
                     in (hset (hset (hset header ''num_streams'' (HInt (int num_streams)))
                            ''stream_data_types'' (HInts ts))
                            ''stream_samples_per_package'' (HInts ss), p2))
                  else (header, p));
               (b, p) = fread f p 4;
               header = hset header ''num_columns'' (HInt (int (from_bytes b)));
               (b, p) = fread f p 4;
               column_names_size = from_bytes b;
               header = hset header ''column_names_size'' (HInt (int column_names_size));
               (b, p) = fread f p column_names_size
           in
           case decode_ascii b of Inl e \<Rightarrow> Inl e | Inr names \<Rightarrow>
             Inr (hset (hset header ''column_names'' (HStrs (split_on (CHR 0x09) names)))
                    ''pos_data_start'' (HInt (int p)), p))))
      else Inl TypeError)"

text \<open>Lines 99-103: 0 = source, 1 = pipeline, 2 = plugin.\<close>

definition file_type_of :: "header \<Rightarrow> nat" where
  "file_type_of header =
     (if lower (hstr header ''code'') = ''src'' then 0
      else if lower (hstr header ''code'') = ''dat'' then 1 else 2)"

subsection \<open>Version 1: rows of fixed size, lines 106-139\<close>

text \<open>The loop of lines 129-136 from row \<open>iRow\<close> on, \<open>n\<close> rows left: four bytes of sample
  counter, then \<open>num_columns - 1\<close> doubles. The loop body runs only when \<open>num_rows\<close> is
  positive, which makes \<open>row_size\<close> and so \<open>num_columns\<close> positive: the count given to
  \<^verbatim>\<open>np.fromfile\<close> is never negative there.\<close>

fun read_rows :: "fbytes \<Rightarrow> nat \<Rightarrow> nat \<Rightarrow> nat \<Rightarrow> matrix \<times> nat \<Rightarrow> exn + (matrix \<times> nat)" where
  "read_rows f num_columns iRow 0 (d, p) = Inr (d, p)"
| "read_rows f num_columns iRow (Suc n) (d, p) =
     (let (b, p1) = fread f p 4 in
      case set_cell d iRow 0 (IntVal (from_bytes b)) of Inl e \<Rightarrow> Inl e | Inr d1 \<Rightarrow>
      (let (vals, p2) = fromfile f p1 (num_columns - 1) in
       case set_row d1 iRow 1 num_columns vals of Inl e \<Rightarrow> Inl e | Inr d2 \<Rightarrow>
         read_rows f num_columns (Suc iRow) n (d2, p2)))"

text \<open>Lines 108-119. \<^verbatim>\<open>floor(a / b)\<close> divides as floats; for a file below \<open>2^53\<close> bytes the
  rounded quotient has the floor of the exact one, which is \<open>div\<close> on the integers (also
  for a negative \<open>row_size\<close>). A row size of 0 raises ZeroDivisionError.\<close>

definition row_size_of :: "nat \<Rightarrow> int \<Rightarrow> int" where
  "row_size_of file_type num_columns =
     (if file_type = 0 \<or> file_type = 1 then 4 + (num_columns - 1) * 8 else num_columns * 8)"

definition load_v1 :: "env \<Rightarrow> fbytes \<Rightarrow> header \<Rightarrow> nat \<Rightarrow> bool \<Rightarrow> exn + (header \<times> matrix option \<times> nat)" where
  "load_v1 e f header p read_data =
     (let header = hset header ''row_size'' (HInt (row_size_of (file_type_of header) (hint header ''num_columns'')))
      in
      if hint header ''row_size'' = 0 then Inl ZeroDivisionError
      else
        (let header = hset header ''num_rows''
               (HInt ((hint header ''file_size'' - hint header ''pos_data_start'') div hint header ''row_size''))
         in
         if read_data then
           (case allocate_array_palmtree e (hint header ''num_rows'', hint header ''num_columns'') NaN False of
              Inl x \<Rightarrow> Inl x
            | Inr None \<Rightarrow> Inr (header, None, p)
            | Inr (Some d) \<Rightarrow>
                (case read_rows f (hnat header ''num_columns'') 0 (hnat header ''num_rows'') (d, p) of
                   Inl x \<Rightarrow> Inl x
                 | Inr (d', p') \<Rightarrow> Inr (header, Some d', p')))
         else Inr (header, None, p)))"

subsection \<open>Versions 2 and 3: \<^verbatim>\<open>__read_packages\<close>, lines 180-373\<close>

text \<open>What the loops of \<^verbatim>\<open>__read_packages\<close> change: the read cursor, the header (its
  \<open>total_samples\<close> and \<open>total_packages\<close>), the matrix, the write index and the local
  \<open>num_samples\<close>, which is unbound (\<open>None\<close>) until a package or chunk assigns it and keeps
  its value from one package to the next. In the counting pass \<open>data\<close> is None and
  \<open>row_index\<close> unbound; neither is read there, and the state holds an empty matrix and 0.

  \<^verbatim>\<open>header['file_size']\<close> is \<^verbatim>\<open>os.path.getsize\<close> of the file being read (line 53) and no
  line changes it, so the loops compare the cursor with \<open>length f\<close>.\<close>

record pstate =
  pos :: nat
  hdr :: header
  data :: matrix
  row_index :: nat
  num_samples :: "nat option"

text \<open>How a loop body ends: it falls through to the next iteration, or it returns from
  \<^verbatim>\<open>__read_packages\<close>.\<close>

datatype 'a flow = Continue 'a | Return 'a

definition add_counts :: "header \<Rightarrow> nat \<Rightarrow> header" where
  "add_counts header n =
     (let header = hset header ''total_samples'' (HInt (hint header ''total_samples'' + int n))
      in hset header ''total_packages'' (HInt (hint header ''total_packages'' + 1)))"

text \<open>The assignments to the matrix. \<open>write_block\<close> is the assignment of lines 258-260
  and 349-351: the values read for \<open>n\<close> samples of \<open>num_streams\<close> streams, reshaped to
  rows of \<open>num_streams\<close> values, go to the rows from \<open>r\<close> and the columns from \<open>c\<close>.
  \<open>write_ids\<close> is lines 301-302 and 345-348: id, elapsed time and (when included) source
  input time over the \<open>n\<close> rows from \<open>r\<close>. \<open>write_row\<close> is lines 336-341, the package of
  one sample: the same three cells of row \<open>r\<close>, then the values.\<close>

definition write_block :: "matrix \<Rightarrow> nat \<Rightarrow> nat \<Rightarrow> nat \<Rightarrow> nat \<Rightarrow> cell list \<Rightarrow> exn + matrix" where
  "write_block d r n c num_streams vals =
     (case reshape vals num_streams of
        Inl e \<Rightarrow> Inl e
      | Inr blk \<Rightarrow> set_block d r (r + n) c (c + num_streams) blk)"

definition write_ids ::
  "matrix \<Rightarrow> nat \<Rightarrow> nat \<Rightarrow> bool \<Rightarrow> nat \<times> 64 word \<times> 64 word \<Rightarrow> exn + matrix" where
  "write_ids d r n includes_input_time ph =
     (let (sample_id, elapsed, source_input_time) = ph in
      case set_col d r (r + n) 0 (IntVal sample_id) of Inl e \<Rightarrow> Inl e | Inr d1 \<Rightarrow>
      (case set_col d1 r (r + n) 1 (Dbl elapsed) of Inl e \<Rightarrow> Inl e | Inr d2 \<Rightarrow>
       (if includes_input_time then set_col d2 r (r + n) 2 (Dbl source_input_time)
        else Inr d2)))"

definition write_row ::
  "matrix \<Rightarrow> nat \<Rightarrow> nat \<Rightarrow> nat \<Rightarrow> bool \<Rightarrow> nat \<times> 64 word \<times> 64 word \<Rightarrow> cell list
   \<Rightarrow> exn + matrix" where
  "write_row d r c num_streams includes_input_time ph vals =
     (let (sample_id, elapsed, source_input_time) = ph in
      case set_cell d r 0 (IntVal sample_id) of Inl e \<Rightarrow> Inl e | Inr d1 \<Rightarrow>
      (case set_cell d1 r 1 (Dbl elapsed) of Inl e \<Rightarrow> Inl e | Inr d2 \<Rightarrow>
       (case (if includes_input_time then set_cell d2 r 2 (Dbl source_input_time)
              else Inr d2) of Inl e \<Rightarrow> Inl e | Inr d3 \<Rightarrow>
          set_row d3 r c (c + num_streams) vals)))"

text \<open>Lines 334-351: a package of one sample writes its row, a package of another
  number of samples writes its rows as a block.\<close>

definition write_package ::
  "matrix \<Rightarrow> nat \<Rightarrow> nat \<Rightarrow> nat \<Rightarrow> nat \<Rightarrow> bool \<Rightarrow> nat \<times> 64 word \<times> 64 word \<Rightarrow> cell list
   \<Rightarrow> exn + matrix" where
  "write_package d r n c num_streams includes_input_time ph vals =
     (if n = 1 then write_row d r c num_streams includes_input_time ph vals
      else (case write_ids d r n includes_input_time ph of
              Inl e \<Rightarrow> Inl e
            | Inr d3 \<Rightarrow> write_block d3 r n c num_streams vals))"

text \<open>One iteration of the loop over the sample-chunks, lines 243-274, with the current
  \<open>stream_index\<close>; \<open>hc\<close> is \<open>data_num_header_columns\<close>. When the values of a chunk are not
  all there, only the counting pass returns (line 271 is under \<^verbatim>\<open>if not read_data\<close>).\<close>

definition chunk_step :: "fbytes \<Rightarrow> bool \<Rightarrow> nat \<Rightarrow> pstate \<Rightarrow> nat \<Rightarrow> exn + (pstate \<times> nat) flow" where
  "chunk_step f read_data hc st stream_index =
     (let (b1, p1) = fread f (pos st) 2;
          num_streams = from_bytes b1;
          (b2, p2) = fread f p1 2;
          n = from_bytes b2;
          num_values = num_streams * n;
          st = st\<lparr>pos := p2, num_samples := Some n\<rparr>
      in
      if p2 + num_values * 8 \<le> length f then
        (if read_data then
           (let (vals, p3) = fromfile f p2 num_values in
            case write_block (data st) (row_index st) n (hc + stream_index) num_streams vals of
              Inl e \<Rightarrow> Inl e
            | Inr d \<Rightarrow> Inr (Continue (st\<lparr>pos := p3, data := d\<rparr>, stream_index + num_streams)))
         else Inr (Continue (st\<lparr>pos := p2 + num_values * 8\<rparr>, stream_index + num_streams)))
      else
        (if \<not> read_data then Inr (Return (st, stream_index))
         else Inr (Continue (st, stream_index + num_streams))))"

lemma chunk_step_pos:
  assumes "chunk_step f rd hc st si = Inr (Continue (st', si'))" and "pos st + 4 \<le> length f"
  shows "pos st + 4 \<le> pos st'"
  using assms
  by (auto simp: chunk_step_def fread_def fromfile_def Let_def min_def
           split: if_splits sum.splits prod.splits)

text \<open>The loop over the sample-chunks of one package, line 241.\<close>

function read_chunks :: "fbytes \<Rightarrow> bool \<Rightarrow> nat \<Rightarrow> pstate \<Rightarrow> nat \<Rightarrow> exn + (pstate \<times> nat) flow" where
  "read_chunks f read_data hc st stream_index =
     (if stream_index < hnat (hdr st) ''num_streams'' \<and> pos st + 4 \<le> length f then
        (case chunk_step f read_data hc st stream_index of
           Inl e \<Rightarrow> Inl e
         | Inr (Return r) \<Rightarrow> Inr (Return r)
         | Inr (Continue (st', stream_index')) \<Rightarrow> read_chunks f read_data hc st' stream_index')
      else Inr (Continue (st, stream_index)))"
  by pat_completeness auto
termination
  by (relation "measure (\<lambda>(f, rd, hc, st, si). length f - pos st)")
     (auto dest!: chunk_step_pos)

declare read_chunks.simps [simp del]

text \<open>The sample-package header, lines 219-230: the materializing pass reads the id, the
  elapsed time and (when included) the source input time; the counting pass seeks over
  them and leaves the three locals unbound. No counting branch reads them, and
  \<open>source_input_time\<close> is read only when it is included: the zeros stand for the unbound
  locals.\<close>

definition read_package_header ::
  "fbytes \<Rightarrow> bool \<Rightarrow> bool \<Rightarrow> nat \<Rightarrow> exn + ((nat \<times> 64 word \<times> 64 word) \<times> nat)" where
  "read_package_header f read_data includes_input_time p =
     (if read_data then
        (let (b, p1) = fread f p 4;
             sample_id = from_bytes b;
             (b, p2) = fread f p1 8
         in
         case unpack_d b of Inl e \<Rightarrow> Inl e | Inr elapsed \<Rightarrow>
           (if includes_input_time then
              (let (b, p3) = fread f p2 8 in
               case unpack_d b of Inl e \<Rightarrow> Inl e
               | Inr source_input_time \<Rightarrow> Inr ((sample_id, elapsed, source_input_time), p3))
            else Inr ((sample_id, elapsed, 0), p2)))
      else Inr ((0, 0, 0), p + (if includes_input_time then 4 + 8 + 8 else 4 + 8)))"

text \<open>Lines 236-305: a pipeline package in chunks. After the chunks the counting pass adds
  \<open>num_samples\<close>, the sample count of the chunk read last, or discards the package and
  returns; the materializing pass writes id and elapsed time over \<open>num_samples\<close> rows.\<close>

definition chunked_package ::
  "fbytes \<Rightarrow> bool \<Rightarrow> nat \<Rightarrow> nat \<times> 64 word \<times> 64 word \<Rightarrow> pstate \<Rightarrow> exn + pstate flow" where
  "chunked_package f read_data hc ph st =
     (case read_chunks f read_data hc st 0 of
        Inl e \<Rightarrow> Inl e
      | Inr (Return (s, stream_index)) \<Rightarrow> Inr (Return s)
      | Inr (Continue (s, stream_index)) \<Rightarrow>
          (if \<not> read_data then
             (if stream_index = hnat (hdr s) ''num_streams'' then
                (case num_samples s of
                   None \<Rightarrow> Inl UnboundLocalError
                 | Some n \<Rightarrow> Inr (Continue (s\<lparr>hdr := add_counts (hdr s) n\<rparr>)))
              else Inr (Return s))
           else
             (case num_samples s of
                None \<Rightarrow> Inl UnboundLocalError
              | Some n \<Rightarrow>
                  (case write_ids (data s) (row_index s) n False ph of
                     Inl e \<Rightarrow> Inl e
                   | Inr d2 \<Rightarrow> Inr (Continue (s\<lparr>data := d2, row_index := row_index s + n\<rparr>))))))"

text \<open>Lines 308-370: a source package, or a pipeline package of one sample per stream.
  When the values are not all there, both passes return (line 370). \<^verbatim>\<open>np.fromfile\<close> cannot
  fail here and only moves the cursor, so the values are read before the id columns are
  written; the state that results is the same.\<close>

definition flat_package ::
  "fbytes \<Rightarrow> nat \<Rightarrow> bool \<Rightarrow> bool \<Rightarrow> nat \<Rightarrow> nat \<times> 64 word \<times> 64 word \<Rightarrow> pstate \<Rightarrow> exn + pstate flow" where
  "flat_package f file_type read_data includes_input_time hc ph st =
     (let num_streams = hnat (hdr st) ''num_streams'';
          (n, p) = (if file_type = 0
                    then (let (b, p1) = fread f (pos st) 2 in (from_bytes b, p1))
                    else (1, pos st));
          num_values = num_streams * n;
          st = st\<lparr>pos := p, num_samples := Some n\<rparr>;
          r = row_index st
      in
      if p + num_values * 8 \<le> length f then
        (if read_data then
           (let (vals, p') = fromfile f p num_values in
            case write_package (data st) r n hc num_streams includes_input_time ph vals of
              Inl e \<Rightarrow> Inl e
            | Inr d4 \<Rightarrow> Inr (Continue (st\<lparr>pos := p', data := d4, row_index := r + n\<rparr>)))
         else Inr (Continue (st\<lparr>hdr := add_counts (hdr st) n, pos := p + num_values * 8\<rparr>)))
      else Inr (Return st))"

text \<open>One iteration of the loop over the sample-packages, lines 219-370.\<close>

definition package_step ::
  "fbytes \<Rightarrow> nat \<Rightarrow> bool \<Rightarrow> bool \<Rightarrow> nat \<Rightarrow> pstate \<Rightarrow> exn + pstate flow" where
  "package_step f file_type read_data includes_input_time hc st =
     (case read_package_header f read_data includes_input_time (pos st) of
        Inl e \<Rightarrow> Inl e
      | Inr (ph, p) \<Rightarrow>
          (if file_type = 1 \<and> hint (hdr st) ''max_samples_stream'' > 1
           then chunked_package f read_data hc ph (st\<lparr>pos := p\<rparr>)
           else flat_package f file_type read_data includes_input_time hc ph (st\<lparr>pos := p\<rparr>)))"

text \<open>Lines 190-199: the size of a sample-package header and the number of header
  columns of the matrix.\<close>

definition package_header_size :: "nat \<Rightarrow> bool \<Rightarrow> nat" where
  "package_header_size file_type includes_input_time =
     (if file_type = 0 then (if includes_input_time then 22 else 14) else 12)"

definition data_num_header_columns :: "nat \<Rightarrow> bool \<Rightarrow> nat" where
  "data_num_header_columns file_type includes_input_time =
     (if file_type = 0 then (if includes_input_time then 3 else 2) else 2)"

text \<open>Every iteration moves the cursor forward: the loops end.\<close>

lemma read_chunks_pos:
  "read_chunks f rd hc st si = Inr (Continue (st', si')) \<Longrightarrow> pos st \<le> pos st'"
proof (induction f rd hc st si rule: read_chunks.induct)
  case (1 f rd hc st si)
  show ?case
  proof (cases "si < hnat (hdr st) ''num_streams'' \<and> pos st + 4 \<le> length f")
    case False
    with "1.prems" show ?thesis by (simp add: read_chunks.simps)
  next
    case True
    with "1.prems" obtain s2 si2 where
      step: "chunk_step f rd hc st si = Inr (Continue (s2, si2))" and
      rest: "read_chunks f rd hc s2 si2 = Inr (Continue (st', si'))"
      by (subst (asm) read_chunks.simps) (auto split: sum.splits flow.splits prod.splits)
    from "1.IH"[OF True step refl refl rest] chunk_step_pos[OF step] True
    show ?thesis by simp
  qed
qed

lemma read_package_header_pos:
  "read_package_header f rd iit p = Inr (ph, p') \<Longrightarrow> p + 12 \<le> length f \<Longrightarrow> p + 12 \<le> p'"
  by (auto simp: read_package_header_def fread_def unpack_d_def Let_def
           split: if_splits sum.splits prod.splits)

lemma flat_package_pos:
  "flat_package f ft rd iit hc ph st = Inr (Continue s) \<Longrightarrow> pos st \<le> pos s"
  by (auto simp: flat_package_def fread_def fromfile_def Let_def
           split: if_splits sum.splits prod.splits)

lemma chunked_package_pos:
  "chunked_package f rd hc ph st = Inr (Continue s) \<Longrightarrow> pos st \<le> pos s"
  by (auto simp: chunked_package_def Let_def dest!: read_chunks_pos
           split: if_splits sum.splits prod.splits flow.splits option.splits)

lemma package_step_pos:
  "package_step f ft rd iit hc st = Inr (Continue s) \<Longrightarrow> pos st + 12 \<le> length f
   \<Longrightarrow> pos st + 12 \<le> pos s"
  by (auto simp: package_step_def
           dest!: read_package_header_pos flat_package_pos chunked_package_pos
           split: if_splits sum.splits prod.splits)

lemma package_header_size_ge: "12 \<le> package_header_size ft iit"
  by (simp add: package_header_size_def)

text \<open>The loop over the sample-packages, line 217, to the state in which
  \<^verbatim>\<open>__read_packages\<close> returns.\<close>

function packages_loop ::
  "fbytes \<Rightarrow> nat \<Rightarrow> bool \<Rightarrow> bool \<Rightarrow> nat \<Rightarrow> pstate \<Rightarrow> exn + pstate" where
  "packages_loop f file_type read_data includes_input_time hc st =
     (if pos st + package_header_size file_type includes_input_time \<le> length f then
        (case package_step f file_type read_data includes_input_time hc st of
           Inl e \<Rightarrow> Inl e
         | Inr (Return s) \<Rightarrow> Inr s
         | Inr (Continue s) \<Rightarrow> packages_loop f file_type read_data includes_input_time hc s)
      else Inr st)"
  by pat_completeness auto
termination
proof (relation "measure (\<lambda>(f, ft, rd, iit, hc, st). length f - pos st)")
  show "wf (measure (\<lambda>(f, ft, rd, iit, hc, st). length f - pos st))" by simp
next
  fix f :: fbytes and file_type read_data includes_input_time hc st x2 x1
  assume a: "pos st + package_header_size file_type includes_input_time \<le> length f"
    and b: "package_step f file_type read_data includes_input_time hc st = Inr x2"
    and c: "x2 = Continue x1"
  from a package_header_size_ge[of file_type includes_input_time]
  have le: "pos st + 12 \<le> length f" by linarith
  from package_step_pos[OF b[unfolded c] le] le
  show "((f, file_type, read_data, includes_input_time, hc, x1),
         (f, file_type, read_data, includes_input_time, hc, st))
        \<in> measure (\<lambda>(f, ft, rd, iit, hc, st). length f - pos st)"
    by simp
qed

declare packages_loop.simps [simp del]

text \<open>\<^verbatim>\<open>__read_packages(file, header, file_type, read_data)\<close>: success, the matrix and the
  header as the call leaves it.\<close>

definition read_packages ::
  "env \<Rightarrow> fbytes \<Rightarrow> header \<Rightarrow> nat \<Rightarrow> bool \<Rightarrow> exn + (bool \<times> matrix option \<times> header)" where
  "read_packages e f header file_type read_data =
     (let includes_input_time =
            (file_type = 0 \<and> has_key header ''includes_source_input_time''
             \<and> hbool header ''includes_source_input_time'');
          p0 = hnat header ''pos_data_start''
      in
      if file_type = 0 \<or> file_type = 1 then
        (let hc = data_num_header_columns file_type includes_input_time in
         case (if read_data
               then allocate_array_palmtree e
                      (hint header ''total_samples'', hint header ''num_streams'' + int hc) NaN False
               else Inr (Some (filled 0 0 NaN))) of
           Inl x \<Rightarrow> Inl x
         | Inr None \<Rightarrow> Inr (False, None, header)
         | Inr (Some d) \<Rightarrow>
             (case packages_loop f file_type read_data includes_input_time hc
                     \<lparr>pos = p0, hdr = header, data = d, row_index = 0, num_samples = None\<rparr> of
                Inl x \<Rightarrow> Inl x
              | Inr s \<Rightarrow> Inr (True, (if read_data then Some (data s) else None), hdr s)))
      else Inr (False, None, header))"

subsection \<open>\<^verbatim>\<open>load_data\<close>, lines 22-177\<close>

text \<open>The body of the \<^verbatim>\<open>try\<close> block: an exception, or the header and the data that
  \<^verbatim>\<open>load_data\<close> returns.\<close>

definition load_data_body :: "env \<Rightarrow> fbytes \<Rightarrow> bool \<Rightarrow> exn + (header \<times> matrix option)" where
  "load_data_body e f read_data =
     (case read_header f of
        Inl x \<Rightarrow> Inl x
      | Inr (header, p) \<Rightarrow>
          (let file_type = file_type_of header in
           if hint header ''version'' = 1 then
             (case load_v1 e f header p read_data of
                Inl x \<Rightarrow> Inl x
              | Inr (header, d, p') \<Rightarrow> Inr (header, d))
           else if hint header ''version'' = 2 \<or> hint header ''version'' = 3 then
             (let header = hset header ''total_samples'' (HInt 0);
                  header = hset header ''total_packages'' (HInt 0)
              in
              case hints header ''stream_samples_per_package'' of
                [] \<Rightarrow> Inl ValueError
              | x # xs \<Rightarrow>
                  (let header = hset header ''max_samples_stream'' (HInt (fold max xs x)) in
                   case read_packages e f header file_type False of
                     Inl x \<Rightarrow> Inl x
                   | Inr (success, d, header) \<Rightarrow>
                       (if success \<and> read_data then
                          (case read_packages e f header file_type True of
                             Inl x \<Rightarrow> Inl x
                           | Inr (success, d, header) \<Rightarrow>
                               (if success then Inr (header, d) else Inr (header, None)))
                        else Inr (header, None))))
           else Inr (header, None)))"

text \<open>\<^verbatim>\<open>load_data(filepath, read_data)\<close> on a file with content \<open>f\<close>: the handlers of lines
  167-177 turn every exception into \<^verbatim>\<open>(None, None)\<close>.\<close>

definition load_data :: "env \<Rightarrow> fbytes \<Rightarrow> bool \<Rightarrow> header option \<times> matrix option" where
  "load_data e f read_data =
     (case load_data_body e f read_data of
        Inl x \<Rightarrow> (None, None)
      | Inr (header, d) \<Rightarrow> (Some header, d))"

section \<open>Properties\<close>

lemma map_of_hset [simp]:
  "map_of (hset h k v) k' = (if k' = k then Some v else map_of h k')"
  by (simp add: hset_def update_conv')

subsection \<open>An unknown version\<close>

text \<open>
  Claim C2: for a file whose version tag is not 1, 2 or 3, \<^verbatim>\<open>load_data\<close> is to return the
  partial header (file size and version) and no data. On the file of the four bytes
  \<open>04 00 00 00\<close> it returns \<^verbatim>\<open>(None, None)\<close> instead: the log message of line 58 adds
  an \<open>int\<close> to a \<open>str\<close>, the TypeError is caught on line 175, and the
  \<^verbatim>\<open>return header, None\<close> of line 59 is never reached.
\<close>

theorem unknown_version_returns_no_header:
  "load_data e [4, 0, 0, 0] read_data = (None, None)"
  by (simp add: load_data_def load_data_body_def read_header_def fread_def from_bytes_def)

subsection \<open>Evaluating the decoder on a concrete file\<close>

text \<open>An environment in which \<^verbatim>\<open>np.empty\<close> always succeeds and no memory is reported
  as available.\<close>

definition env0 :: env where
  "env0 = \<lparr>mem_available = 0, np_empty_ok = (\<lambda>n. True)\<rparr>"

lemma read_streams_numeral:
  "read_streams f p (numeral k) = read_streams f p (Suc (pred_numeral k))"
  by (simp add: numeral_eq_Suc)

lemma read_rows_numeral:
  "read_rows f nc i (numeral k) s = read_rows f nc i (Suc (pred_numeral k)) s"
  by (simp add: numeral_eq_Suc)

lemma replicate_numeral_Cons: "replicate (numeral k) x = x # replicate (pred_numeral k) x"
  by (simp add: numeral_eq_Suc)

lemma list_update_Cons_numeral: "(x # xs)[numeral k := y] = x # xs[pred_numeral k := y]"
  by (simp add: numeral_eq_Suc)

lemmas eval_header = read_header_def fread_def from_bytes_def decode_ascii_def unpack_d_def
  lower_def hset_def read_streams_numeral Let_def char_of_def bit_Suc_0_iff

lemmas eval_packages = read_packages_def file_type_of_def
  hint_def hnat_def hints_def hstr_def hbool_def has_key_def
  packages_loop.simps package_step_def package_header_size_def data_num_header_columns_def
  read_package_header_def chunked_package_def flat_package_def read_chunks.simps chunk_step_def
  add_counts_def fread_def from_bytes_def unpack_d_def hset_def lower_def Let_def char_of_def
  bit_Suc_0_iff

lemmas eval_matrix = allocate_array_palmtree_def filled_def nrows_def set_cell_def set_col_def
  set_row_def set_block_def reshape_def fromfile_def write_block_def write_ids_def
  write_row_def write_package_def replicate_numeral_Cons list_update_Cons_numeral

lemmas eval_v1 = load_v1_def row_size_of_def read_rows_numeral

subsection \<open>A package whose chunks differ in sample count\<close>

text \<open>A version-2 pipeline file (\<open>dat\<close>) of 105 bytes: two streams with 3 and 1 samples per
  package, four columns, no column names, and one complete package (id 1, elapsed 0.5) of
  two chunks, as its header declares them: 1 stream of 3 samples (values 1.0, 2.0, 3.0),
  then 1 stream of 1 sample (value 4.0).\<close>

definition file_chunks_3_1 :: fbytes where
  "file_chunks_3_1 =
    [2, 0, 0, 0, 100, 97, 116, 0, 0, 0, 0, 0, 0, 0, 0, 0, 0, 0, 0, 0,
     0, 0, 0, 0, 0, 0, 0, 0, 0, 0, 0, 0, 0, 0, 0, 2, 0, 0, 0, 0,
     3, 0, 0, 1, 0, 4, 0, 0, 0, 0, 0, 0, 0, 1, 0, 0, 0, 0, 0, 0,
     0, 0, 0, 224, 63, 1, 0, 3, 0, 0, 0, 0, 0, 0, 0, 240, 63, 0, 0, 0,
     0, 0, 0, 0, 64, 0, 0, 0, 0, 0, 0, 8, 64, 1, 0, 1, 0, 0, 0, 0,
     0, 0, 0, 16, 64]"

lemma read_header_file_chunks_3_1:
  "read_header file_chunks_3_1 = Inr
     ([(''file_size'', HInt 105), (''version'', HInt 2), (''code'', HStr ''dat''),
        (''run_start_epoch'', HInt 0), (''file_start_epoch'', HInt 0),
        (''sample_rate'', HFloat 0), (''num_playback_streams'', HInt 0),
        (''num_streams'', HInt 2), (''stream_data_types'', HInts [0, 0]),
        (''stream_samples_per_package'', HInts [3, 1]), (''num_columns'', HInt 4),
        (''column_names_size'', HInt 0), (''column_names'', HStrs [[]]),
        (''pos_data_start'', HInt 53)], 53)"
  by (simp add: file_chunks_3_1_def eval_header)

text \<open>
  Claim C3: for a package of the chunked layout whose chunks are all complete and whose
  streams add up to \<open>num_streams\<close>, the counting pass is to add the maximum of the chunks'
  sample counts to \<open>total_samples\<close>. On \<open>file_chunks_3_1\<close> the chunks declare 3 and 1
  samples; the counting pass counts one package and adds 1, the count of the chunk read
  last (line 285 adds the local \<open>num_samples\<close>), not the maximum 3 that the comment of
  lines 283-284 asks for.
\<close>

theorem counting_pass_adds_last_chunk_count:
  "map_option (\<lambda>h. (hint h ''total_samples'', hint h ''total_packages''))
     (fst (load_data e file_chunks_3_1 False)) = Some (1, 1)"
  unfolding load_data_def load_data_body_def read_header_file_chunks_3_1
  by (simp add: file_chunks_3_1_def eval_packages)

text \<open>
  Claim C1: on a well-formed version-2/3 file the rows written by the materializing pass
  are to be as many as the counting pass counted, both passes walking the same bytes. On
  \<open>file_chunks_3_1\<close> the counting pass counts 1 sample, the matrix gets one row, and the
  materializing pass fails on the first chunk: its block of 3 rows does not fit the one
  row that is there (ValueError of the assignment of line 258), and \<^verbatim>\<open>load_data\<close>
  returns \<^verbatim>\<open>(None, None)\<close>.
\<close>

theorem materializing_pass_fails_on_wider_first_chunk:
  "load_data_body env0 file_chunks_3_1 True = Inl ValueError \<and>
   load_data env0 file_chunks_3_1 True = (None, None)"
  unfolding load_data_def load_data_body_def read_header_file_chunks_3_1
  by (simp add: file_chunks_3_1_def env0_def eval_packages eval_matrix)

subsection \<open>A file truncated in the middle of a chunk\<close>

text \<open>A version-2 pipeline file of 149 bytes: two streams of 2 samples per package, four
  columns, a complete package (id 1; chunks of 1 stream and 2 samples with values 1.0, 2.0
  and 3.0, 4.0), and a second package (id 2) cut in its second chunk: the first chunk
  (1 stream, 2 samples, values 5.0, 6.0) is whole, the second declares 1 stream of 2
  samples and has 8 of its 16 bytes.\<close>

definition file_truncated_chunk :: fbytes where
  "file_truncated_chunk =
    [2, 0, 0, 0, 100, 97, 116, 0, 0, 0, 0, 0, 0, 0, 0, 0, 0, 0, 0, 0,
     0, 0, 0, 0, 0, 0, 0, 0, 0, 0, 0, 0, 0, 0, 0, 2, 0, 0, 0, 0,
     2, 0, 0, 2, 0, 4, 0, 0, 0, 0, 0, 0, 0, 1, 0, 0, 0, 0, 0, 0,
     0, 0, 0, 224, 63, 1, 0, 2, 0, 0, 0, 0, 0, 0, 0, 240, 63, 0, 0, 0,
     0, 0, 0, 0, 64, 1, 0, 2, 0, 0, 0, 0, 0, 0, 0, 8, 64, 0, 0, 0,
     0, 0, 0, 16, 64, 2, 0, 0, 0, 0, 0, 0, 0, 0, 0, 224, 63, 1, 0, 2,
     0, 0, 0, 0, 0, 0, 0, 20, 64, 0, 0, 0, 0, 0, 0, 24, 64, 1, 0, 2,
     0, 0, 0, 0, 0, 0, 0, 28, 64]"

lemma read_header_file_truncated_chunk:
  "read_header file_truncated_chunk = Inr
     ([(''file_size'', HInt 149), (''version'', HInt 2), (''code'', HStr ''dat''),
        (''run_start_epoch'', HInt 0), (''file_start_epoch'', HInt 0),
        (''sample_rate'', HFloat 0), (''num_playback_streams'', HInt 0),
        (''num_streams'', HInt 2), (''stream_data_types'', HInts [0, 0]),
        (''stream_samples_per_package'', HInts [2, 2]), (''num_columns'', HInt 4),
        (''column_names_size'', HInt 0), (''column_names'', HStrs [[]]),
        (''pos_data_start'', HInt 53)], 53)"
  by (simp add: file_truncated_chunk_def eval_header)

text \<open>
  Claim C4: on a file truncated in the middle of a chunk both passes are to return
  success, the partial package discarded and the rows of the packages before it kept. On
  \<open>file_truncated_chunk\<close> the counting pass does so (2 samples, 1 package); the
  materializing pass has no return at the truncated chunk (line 271 is under
  \<^verbatim>\<open>if not read_data\<close>) and has already written the first chunk of the partial package
  into rows that were never allocated: ValueError, and \<^verbatim>\<open>load_data\<close> returns
  \<^verbatim>\<open>(None, None)\<close>, losing the complete package too.
\<close>

theorem truncated_chunk_fails_materializing_pass:
  "map_option (\<lambda>h. (hint h ''total_samples'', hint h ''total_packages''))
     (fst (load_data env0 file_truncated_chunk False)) = Some (2, 1) \<and>
   load_data_body env0 file_truncated_chunk True = Inl ValueError \<and>
   load_data env0 file_truncated_chunk True = (None, None)"
  unfolding load_data_def load_data_body_def read_header_file_truncated_chunk
  by (simp add: file_truncated_chunk_def env0_def eval_packages eval_matrix)

subsection \<open>Version 1: the bytes that the rows consume\<close>

text \<open>What a full read of a version-1 file computes and consumes: \<open>row_size\<close>,
  \<open>num_rows\<close> and the distance of the cursor after the last row from
  \<open>pos_data_start\<close>.\<close>

definition v1_rows_consumed :: "env \<Rightarrow> fbytes \<Rightarrow> (int \<times> int \<times> int) option" where
  "v1_rows_consumed e f =
     (case read_header f of
        Inl x \<Rightarrow> None
      | Inr (header, p) \<Rightarrow>
          (case load_v1 e f header p True of
             Inl x \<Rightarrow> None
           | Inr (header', d, p') \<Rightarrow>
               Some (hint header' ''row_size'', hint header' ''num_rows'', int p' - int p)))"

text \<open>A version-1 plugin file (code \<open>plg\<close>) of 43 bytes: two columns, no column names, and
  16 bytes of data (the doubles 1.0 and 2.0).\<close>

definition file_v1_plugin :: fbytes where
  "file_v1_plugin =
    [1, 0, 0, 0, 112, 108, 103, 0, 0, 0, 0, 0, 0, 0, 0, 0, 0, 0, 0, 2,
     0, 0, 0, 0, 0, 0, 0, 0, 0, 0, 0, 0, 0, 240, 63, 0, 0, 0, 0, 0,
     0, 0, 64]"

lemma read_header_file_v1_plugin:
  "read_header file_v1_plugin = Inr
     ([(''file_size'', HInt 43), (''version'', HInt 1), (''code'', HStr ''plg''),
        (''sample_rate'', HFloat 0), (''num_playback_streams'', HInt 0),
        (''num_columns'', HInt 2), (''column_names_size'', HInt 0),
        (''column_names'', HStrs [[]]), (''pos_data_start'', HInt 27)], 27)"
  by (simp add: file_v1_plugin_def eval_header)

text \<open>
  Claim C5: decoding the rows of a version-1 file is to consume \<open>num_rows * row_size\<close>
  bytes. On \<open>file_v1_plugin\<close> the row size is \<open>8 * 2 = 16\<close> and there is 1 row, but the
  loop of lines 129-136 reads a 4-byte counter and one double for every kind of file: 12
  bytes, not 16.
\<close>

theorem plugin_row_consumes_less_than_row_size:
  "v1_rows_consumed env0 file_v1_plugin = Some (16, 1, 12)"
  unfolding v1_rows_consumed_def read_header_file_v1_plugin
  by (simp add: file_v1_plugin_def env0_def eval_v1 eval_packages eval_matrix)

text \<open>For the other two kinds the rows do consume \<open>num_rows * row_size\<close> bytes: on every
  version-1 source or pipeline file whose full read succeeds, the cursor ends
  \<open>num_rows * row_size\<close> bytes after \<open>pos_data_start\<close>. The loop reads whole rows only, as
  \<open>num_rows * row_size\<close> is at most the number of bytes that follow the header.\<close>

lemma read_rows_consumes:
  assumes "p + n * (4 + 8 * (nc - 1)) \<le> length f"
    and "read_rows f nc i n (d, p) = Inr (d', p')"
  shows "p' = p + n * (4 + 8 * (nc - 1))"
  using assms
proof (induction n arbitrary: i d p)
  case 0
  then show ?case by simp
next
  case (Suc n)
  from Suc.prems(1) have le: "p + 4 + 8 * (nc - 1) \<le> length f" by simp
  then have r4: "fread f p 4 = (take 4 (drop p f), p + 4)"
    by (auto simp: fread_def Let_def min_def)
  from le have ff: "snd (fromfile f (p + 4) (nc - 1)) = p + 4 + 8 * (nc - 1)"
    by (simp add: fromfile_def Let_def min_def)
  from Suc.prems(2) r4 obtain d2 where
    rest: "read_rows f nc (Suc i) n (d2, snd (fromfile f (p + 4) (nc - 1))) = Inr (d', p')"
    by (auto simp: split_beta split: sum.splits)
  from Suc.prems(1) have "p + 4 + 8 * (nc - 1) + n * (4 + 8 * (nc - 1)) \<le> length f"
    by simp
  from Suc.IH[OF _ rest[unfolded ff]] this show ?case by simp
qed

lemma read_header_positions:
  assumes "read_header f = Inr (h, p)"
  shows "hint h ''file_size'' = int (length f)" and "hint h ''pos_data_start'' = int p"
    and "0 \<le> hint h ''num_columns''"
  using assms
  by (auto simp: read_header_def Let_def hint_def split_beta split: if_splits sum.splits)

lemma hint_hset:
  "hint (hset h k (HInt n)) k' = (if k' = k then n else hint h k')"
  by (simp add: hint_def)

lemma allocate_unchecked:
  assumes "allocate_array_palmtree e (r, c) v False = Inr x"
  shows "0 \<le> r \<and> 0 \<le> c \<and> x = Some (filled (nat r) (nat c) v)"
  using assms by (auto simp: allocate_array_palmtree_def Let_def split: if_splits)

lemma read_rows_no_columns:
  assumes "ncols d = 0" and "read_rows f nc i (Suc n) (d, p) = Inr r"
  shows False
  using assms by (simp add: set_cell_def split_beta)

lemma source_rows_consumed:
  assumes "v1_rows_consumed e f = Some (rs, nr, c)"
    and "read_header f = Inr (h, p)"
    and "file_type_of h = 0 \<or> file_type_of h = 1"
  shows "c = nr * rs"
proof -
  note hp = read_header_positions[OF assms(2)]
  define nc where "nc = hint h ''num_columns''"
  define rs' where "rs' = 4 + (nc - 1) * 8"
  define nr' where "nr' = (int (length f) - int p) div rs'"
  define h2 where "h2 = hset (hset h ''row_size'' (HInt rs')) ''num_rows'' (HInt nr')"
  have rs0: "rs' \<noteq> 0" unfolding rs'_def by presburger
  have rso: "row_size_of (file_type_of h) nc = rs'"
    using assms(3) by (auto simp: row_size_of_def rs'_def)
  have ld: "load_v1 e f h p True =
      (case allocate_array_palmtree e (nr', nc) NaN False of
         Inl x \<Rightarrow> Inl x
       | Inr None \<Rightarrow> Inr (h2, None, p)
       | Inr (Some d) \<Rightarrow>
           (case read_rows f (nat nc) 0 (nat nr') (d, p) of
              Inl x \<Rightarrow> Inl x
            | Inr (d', p') \<Rightarrow> Inr (h2, Some d', p')))"
    using rs0
    by (simp add: load_v1_def Let_def hint_hset hnat_def hp nc_def[symmetric] rso
          nr'_def[symmetric] h2_def cong: sum.case_cong option.case_cong)
  have h2v: "hint h2 ''row_size'' = rs'" "hint h2 ''num_rows'' = nr'"
    by (simp_all add: h2_def hint_hset)
  from assms(1) obtain x d' p' where
    al: "allocate_array_palmtree e (nr', nc) NaN False = Inr x"
    and rr: "read_rows f (nat nc) 0 (nat nr') (filled (nat nr') (nat nc) NaN, p) = Inr (d', p')"
    and eqs: "rs = rs'" "nr = nr'" "c = int p' - int p"
    by (auto simp: v1_rows_consumed_def assms(2) ld h2v split: sum.splits option.splits
          dest: allocate_unchecked)
  from allocate_unchecked[OF al] have nn: "0 \<le> nr'" "0 \<le> nc" by simp_all
  show ?thesis
  proof (cases "nat nr'")
    case 0
    with rr nn have "p' = p" "nr' = 0" by simp_all
    with eqs show ?thesis by simp
  next
    case (Suc n)
    have nc1: "1 \<le> nc"
    proof (rule ccontr)
      assume "\<not> 1 \<le> nc"
      with nn have "nat nc = 0" by simp
      then have "ncols (filled (nat nr') (nat nc) NaN) = 0" by (simp add: filled_def)
      with rr Suc show False by (auto dest: read_rows_no_columns)
    qed
    then have rsp: "0 < rs'" by (simp add: rs'_def)
    have rsn: "int (4 + 8 * (nat nc - 1)) = rs'"
      using nc1 by (simp add: rs'_def)
    have "(int (length f) - int p) div rs' * rs' + (int (length f) - int p) mod rs'
        = int (length f) - int p" by (rule div_mult_mod_eq)
    moreover have "0 \<le> (int (length f) - int p) mod rs'" using rsp by simp
    ultimately have "nr' * rs' \<le> int (length f) - int p"
      unfolding nr'_def by linarith
    moreover have conv: "int (nat nr' * (4 + 8 * (nat nc - 1))) = nr' * rs'"
      unfolding of_nat_mult rsn using nn by simp
    ultimately have "int (p + nat nr' * (4 + 8 * (nat nc - 1))) \<le> int (length f)"
      unfolding of_nat_add by linarith
    then have le: "p + nat nr' * (4 + 8 * (nat nc - 1)) \<le> length f"
      by (simp only: of_nat_le_iff)
    from read_rows_consumes[OF le rr]
    have "int p' - int p = int (nat nr' * (4 + 8 * (nat nc - 1)))" by simp
    with conv eqs show ?thesis by simp
  qed
qed

subsection \<open>The memory check of the allocators\<close>

lemma upt_numeral_right:
  "[i..<numeral k] = (if i < numeral k then i # [Suc i..<numeral k] else [])"
  by (simp add: upt_rec)

lemmas eval_lists = min_def upt_numeral_right

lemma allocate_no_check:
  "allocate_array_palmtree (e\<lparr>mem_available := a\<rparr>) dims v False =
   allocate_array_palmtree e dims v False"
  by (simp add: allocate_array_palmtree_def split_beta Let_def)

lemma read_packages_mem:
  "read_packages (e\<lparr>mem_available := a\<rparr>) f h ft rd = read_packages e f h ft rd"
  by (cases rd) (simp_all add: read_packages_def allocate_no_check Let_def)

lemma load_v1_mem:
  "load_v1 (e\<lparr>mem_available := a\<rparr>) f h p rd = load_v1 e f h p rd"
  by (cases rd) (simp_all add: load_v1_def allocate_no_check Let_def)

lemma load_data_mem:
  "load_data (e\<lparr>mem_available := a\<rparr>) f rd = load_data e f rd"
  by (simp add: load_data_def load_data_body_def read_packages_mem load_v1_mem Let_def
           cong: if_cong sum.case_cong list.case_cong)

text \<open>With \<^verbatim>\<open>check_mem=False\<close>, the default that every call of the decoder uses, no memory
  check is made: with no memory available at all, \<^verbatim>\<open>load_data\<close> on \<open>file_v1_plugin\<close> (a
  matrix of 16 bytes) allocates and returns the matrix.\<close>

lemma decoder_allocates_without_memory_check:
  "mem_available env0 = 0 \<and>
   snd (load_data env0 file_v1_plugin True) =
     Some \<lparr>ncols = 2, rows = [[IntVal 0, Dbl 1072693248]]\<rparr>"
  unfolding load_data_def load_data_body_def read_header_file_v1_plugin
  by (simp add: file_v1_plugin_def env0_def eval_v1 eval_packages eval_matrix eval_lists)

text \<open>The memory check itself: \<^verbatim>\<open>allocate_array\<close> of misc.py returns None when \<^verbatim>\<open>np.empty\<close>
  succeeded and the available memory is not above the bytes needed, and \<^verbatim>\<open>_allocate_array\<close>
  called with \<^verbatim>\<open>check_mem=True\<close> does the same. The result of \<^verbatim>\<open>load_data\<close> does not depend
  on the available memory.\<close>

lemma memory_check_only_when_asked:
  "(allocate_array_misc e (r, c) v = Inr None \<longleftrightarrow>
      0 \<le> r \<and> 0 \<le> c \<and> np_empty_ok e (8 * nat r * nat c) \<and>
      mem_available e \<le> 8 * nat r * nat c) \<and>
   allocate_array_palmtree e (r, c) v True = allocate_array_misc e (r, c) v \<and>
   allocate_array_palmtree (e\<lparr>mem_available := a\<rparr>) (r, c) v False =
     allocate_array_palmtree e (r, c) v False \<and>
   load_data (e\<lparr>mem_available := a\<rparr>) f rd = load_data e f rd"
  by (auto simp: allocate_array_misc_def allocate_array_palmtree_def load_data_mem Let_def)

text \<open>When \<^verbatim>\<open>np.empty\<close> itself raises MemoryError, the handler of lines 413-415 (54-56 in
  misc.py) formats \<^verbatim>\<open>mem.used\<close> before \<open>mem\<close> was assigned: both allocators raise
  UnboundLocalError, whatever \<^verbatim>\<open>check_mem\<close> is, and the \<^verbatim>\<open>return None\<close> that follows is not
  reached.\<close>

lemma allocators_raise_when_np_empty_fails:
  assumes "0 \<le> r" and "0 \<le> c" and "\<not> np_empty_ok e (8 * nat r * nat c)"
  shows "allocate_array_palmtree e (r, c) v check_mem = Inl UnboundLocalError"
    and "allocate_array_misc e (r, c) v = Inl UnboundLocalError"
  using assms by (simp_all add: allocate_array_palmtree_def allocate_array_misc_def)

text \<open>A machine on which \<^verbatim>\<open>np.empty\<close> cannot reserve a single byte.\<close>

definition env_exhausted :: env where
  "env_exhausted = \<lparr>mem_available = 0, np_empty_ok = (\<lambda>n. n = 0)\<rparr>"

text \<open>
  Claim C8: on insufficient memory the allocator returns None instead of raising, and
  \<^verbatim>\<open>load_data\<close> then returns the header with no data. The docstring of \<^verbatim>\<open>_allocate_array\<close>
  (``or None if insufficient memory available''), the \<^verbatim>\<open>return None\<close> of its handler and
  lines 126-127 of \<^verbatim>\<open>load_data\<close> say the same. The code does not do it: on \<open>env_exhausted\<close>
  the allocation of the 1 x 2 matrix of \<open>file_v1_plugin\<close> raises UnboundLocalError in both
  allocators, and \<^verbatim>\<open>load_data\<close> returns neither data nor the header, which the header-only
  read of the same file on the same machine does return.
\<close>

theorem allocation_failure_loses_header:
  "allocate_array_palmtree env_exhausted (1, 2) NaN False = Inl UnboundLocalError \<and>
   allocate_array_misc env_exhausted (1, 2) NaN = Inl UnboundLocalError \<and>
   load_data env_exhausted file_v1_plugin True = (None, None) \<and>
   map_option (\<lambda>h. (hint h ''num_rows'', hint h ''num_columns''))
     (fst (load_data env_exhausted file_v1_plugin False)) = Some (1, 2)"
  unfolding load_data_def load_data_body_def read_header_file_v1_plugin
  by (simp add: file_v1_plugin_def env_exhausted_def allocate_array_misc_def
        eval_v1 eval_packages eval_matrix eval_lists)

subsection \<open>A file that declares no stream\<close>

lemma read_header_no_streams:
  assumes "read_header f = Inr (h, p)"
    and "hint h ''version'' = 2 \<or> hint h ''version'' = 3"
    and "hint h ''num_streams'' = 0"
  shows "hints h ''stream_samples_per_package'' = []"
  using assms
  by (auto simp: read_header_def Let_def hint_def hints_def split_beta
           split: if_splits sum.splits)

text \<open>
  Claim C9: for a version-2/3 file that declares \<open>num_streams = 0\<close>, \<^verbatim>\<open>load_data\<close> returns
  \<^verbatim>\<open>(None, None)\<close>: the list \<open>stream_samples_per_package\<close> is empty, \<^verbatim>\<open>max\<close> of it raises
  ValueError on line 148, and the handler of line 175 swallows it. A file declares no
  stream when its header parses (\<open>read_header\<close> returns) with version 2 or 3 and
  \<open>num_streams\<close> 0.
\<close>

theorem no_streams_returns_none:
  assumes "read_header f = Inr (h, p)"
    and "hint h ''version'' = 2 \<or> hint h ''version'' = 3"
    and "hint h ''num_streams'' = 0"
  shows "load_data_body e f read_data = Inl ValueError \<and> load_data e f read_data = (None, None)"
proof -
  have "hints h ''stream_samples_per_package'' = []"
    using assms by (rule read_header_no_streams)
  then have "hints (hset (hset h ''total_samples'' (HInt 0)) ''total_packages'' (HInt 0))
               ''stream_samples_per_package'' = []"
    by (simp add: hints_def)
  with assms show ?thesis
    by (auto simp: load_data_def load_data_body_def Let_def)
qed

text \<open>A version-2 pipeline file of 47 bytes, the header only: \<open>num_streams\<close> is 0, two
  columns, no column names.\<close>

definition file_no_streams :: fbytes where
  "file_no_streams =
    [2, 0, 0, 0, 100, 97, 116, 0, 0, 0, 0, 0, 0, 0, 0, 0, 0, 0, 0, 0,
     0, 0, 0, 0, 0, 0, 0, 0, 0, 0, 0, 0, 0, 0, 0, 0, 0, 0, 0, 2,
     0, 0, 0, 0, 0, 0, 0]"

theorem no_streams_returns_none_witness:
  "read_header file_no_streams = Inr
     ([(''file_size'', HInt 47), (''version'', HInt 2), (''code'', HStr ''dat''),
       (''run_start_epoch'', HInt 0), (''file_start_epoch'', HInt 0),
       (''sample_rate'', HFloat 0), (''num_playback_streams'', HInt 0),
       (''num_streams'', HInt 0), (''stream_data_types'', HInts []),
       (''stream_samples_per_package'', HInts []), (''num_columns'', HInt 2),
       (''column_names_size'', HInt 0), (''column_names'', HStrs [[]]),
       (''pos_data_start'', HInt 47)], 47) \<and>
   load_data env0 file_no_streams True = (None, None)"
proof -
  have rh: "read_header file_no_streams = Inr
     ([(''file_size'', HInt 47), (''version'', HInt 2), (''code'', HStr ''dat''),
       (''run_start_epoch'', HInt 0), (''file_start_epoch'', HInt 0),
       (''sample_rate'', HFloat 0), (''num_playback_streams'', HInt 0),
       (''num_streams'', HInt 0), (''stream_data_types'', HInts []),
       (''stream_samples_per_package'', HInts []), (''num_columns'', HInt 2),
       (''column_names_size'', HInt 0), (''column_names'', HStrs [[]]),
       (''pos_data_start'', HInt 47)], 47)"
    by (simp add: file_no_streams_def eval_header)
  from no_streams_returns_none[OF rh, of env0 True] rh
  show ?thesis by (simp add: hint_def)
qed

subsection \<open>What the loops do to the header\<close>

text \<open>The loops store \<open>total_samples\<close> and \<open>total_packages\<close> and nothing else, and the
  materializing pass stores nothing.\<close>

definition same_fields :: "header \<Rightarrow> header \<Rightarrow> bool" where
  "same_fields h h' =
     (\<forall>k. k = ''total_samples'' \<or> k = ''total_packages'' \<or> map_of h' k = map_of h k)"

lemma same_fields_refl [simp]: "same_fields h h"
  by (simp add: same_fields_def)

lemma same_fields_trans: "same_fields h h' \<Longrightarrow> same_fields h' h'' \<Longrightarrow> same_fields h h''"
  unfolding same_fields_def by metis

lemma same_fields_add_counts [simp]: "same_fields h (add_counts h n)"
  by (simp add: same_fields_def add_counts_def Let_def)

lemma chunk_step_hdr:
  "chunk_step f rd hc st si = Inr r \<Longrightarrow>
     (case r of Continue (s, i) \<Rightarrow> hdr s = hdr st | Return (s, i) \<Rightarrow> hdr s = hdr st)"
  by (auto simp: chunk_step_def Let_def split_beta split: if_splits sum.splits)

lemma read_chunks_hdr:
  "read_chunks f rd hc st si = Inr r \<Longrightarrow>
     (case r of Continue (s, i) \<Rightarrow> hdr s = hdr st | Return (s, i) \<Rightarrow> hdr s = hdr st)"
proof (induction f rd hc st si rule: read_chunks.induct)
  case (1 f rd hc st si)
  show ?case
  proof (cases "si < hnat (hdr st) ''num_streams'' \<and> pos st + 4 \<le> length f")
    case False
    with "1.prems" show ?thesis by (auto simp: read_chunks.simps)
  next
    case True
    from "1.prems" True obtain r1 where step: "chunk_step f rd hc st si = Inr r1"
      by (subst (asm) read_chunks.simps) (auto split: sum.splits)
    show ?thesis
    proof (cases r1)
      case (Return x)
      with step "1.prems" True chunk_step_hdr[OF step] show ?thesis
        by (subst (asm) read_chunks.simps) auto
    next
      case (Continue x)
      obtain s2 si2 where x: "x = (s2, si2)" by (cases x)
      from step Continue x have step': "chunk_step f rd hc st si = Inr (Continue (s2, si2))" by simp
      from "1.prems" True step' have rest: "read_chunks f rd hc s2 si2 = Inr r"
        by (subst (asm) read_chunks.simps) simp
      from chunk_step_hdr[OF step'] have "hdr s2 = hdr st" by simp
      with "1.IH"[OF True step' refl refl rest] show ?thesis
        by (auto split: flow.splits)
    qed
  qed
qed

lemma chunked_package_hdr:
  "chunked_package f rd hc ph st = Inr r \<Longrightarrow>
     (case r of Continue s \<Rightarrow> same_fields (hdr st) (hdr s) \<and> (rd \<longrightarrow> hdr s = hdr st)
              | Return s \<Rightarrow> hdr s = hdr st)"
  by (auto simp: chunked_package_def Let_def split_beta dest!: read_chunks_hdr
           split: if_splits sum.splits flow.splits option.splits prod.splits)

lemma flat_package_hdr:
  "flat_package f ft rd iit hc ph st = Inr r \<Longrightarrow>
     (case r of Continue s \<Rightarrow> same_fields (hdr st) (hdr s) \<and> (rd \<longrightarrow> hdr s = hdr st)
              | Return s \<Rightarrow> hdr s = hdr st)"
  by (auto simp: flat_package_def Let_def split_beta
           split: if_splits sum.splits flow.splits)

lemma package_step_hdr:
  "package_step f ft rd iit hc st = Inr r \<Longrightarrow>
     (case r of Continue s \<Rightarrow> same_fields (hdr st) (hdr s) \<and> (rd \<longrightarrow> hdr s = hdr st)
              | Return s \<Rightarrow> hdr s = hdr st)"
  by (auto simp: package_step_def dest!: chunked_package_hdr flat_package_hdr
           split: if_splits sum.splits prod.splits flow.splits)

lemma packages_loop_hdr:
  "packages_loop f ft rd iit hc st = Inr s \<Longrightarrow>
     same_fields (hdr st) (hdr s) \<and> (rd \<longrightarrow> hdr s = hdr st)"
proof (induction f ft rd iit hc st rule: packages_loop.induct)
  case (1 f ft rd iit hc st)
  show ?case
  proof (cases "pos st + package_header_size ft iit \<le> length f")
    case False
    with "1.prems" show ?thesis by (simp add: packages_loop.simps)
  next
    case True
    from "1.prems" True obtain r1 where step: "package_step f ft rd iit hc st = Inr r1"
      by (subst (asm) packages_loop.simps) (auto split: sum.splits)
    show ?thesis
    proof (cases r1)
      case (Return x)
      with step "1.prems" True package_step_hdr[OF step] show ?thesis
        by (subst (asm) packages_loop.simps) auto
    next
      case (Continue s2)
      from "1.prems" True step Continue have rest: "packages_loop f ft rd iit hc s2 = Inr s"
        by (subst (asm) packages_loop.simps) simp
      from package_step_hdr[OF step] Continue
      have a: "same_fields (hdr st) (hdr s2)" and b: "rd \<longrightarrow> hdr s2 = hdr st" by simp_all
      from "1.IH"[OF True step Continue rest] a b show ?thesis
        by (auto intro: same_fields_trans)
    qed
  qed
qed

lemma read_packages_hdr:
  "read_packages e f h ft rd = Inr (ok, d, h') \<Longrightarrow> same_fields h h' \<and> (rd \<longrightarrow> h' = h)"
  by (auto simp: read_packages_def Let_def dest!: packages_loop_hdr
           split: if_splits sum.splits option.splits)

lemma read_packages_count_env:
  "read_packages e f h ft False = read_packages e' f h ft False"
  by (simp add: read_packages_def Let_def)

lemma read_packages_count_data:
  "read_packages e f h ft False = Inr (ok, d, h') \<Longrightarrow> d = None"
  by (auto simp: read_packages_def Let_def split: if_splits sum.splits option.splits)

subsection \<open>Reading the header only\<close>

lemma load_v1_count_env: "load_v1 e' f h p False = load_v1 e f h p False"
  by (simp add: load_v1_def Let_def)

lemma load_v1_count_data: "load_v1 e f h p False = Inr (h', d, p') \<Longrightarrow> d = None"
  by (auto simp: load_v1_def Let_def split: if_splits)

lemma load_v1_header:
  "load_v1 e f h p True = Inr (h', d, p') \<Longrightarrow> load_v1 e f h p False = Inr (h', None, p)"
  by (auto simp: load_v1_def Let_def split: if_splits sum.splits option.splits)

lemma body_count_env: "load_data_body e' f False = load_data_body e f False"
  by (simp add: load_data_body_def Let_def load_v1_count_env[of e' _ _ _ e]
        read_packages_count_env[of e' _ _ _ e]
      cong: sum.case_cong if_cong list.case_cong)

lemma body_count_data: "load_data_body e f False = Inr (h, d) \<Longrightarrow> d = None"
  by (auto simp: load_data_body_def Let_def dest: load_v1_count_data
           split: if_splits sum.splits list.splits)

lemma body_header:
  assumes "load_data_body e f True = Inr (h, d)"
  shows "load_data_body e f False = Inr (h, None)"
proof -
  from assms obtain h0 p where rh: "read_header f = Inr (h0, p)"
    by (auto simp: load_data_body_def split: sum.splits)
  show ?thesis
  proof (cases "hint h0 ''version'' = 1")
    case True
    with assms rh obtain d' p' where "load_v1 e f h0 p True = Inr (h, d', p')"
      by (auto simp: load_data_body_def split: sum.splits)
    from load_v1_header[OF this] rh True show ?thesis
      by (simp add: load_data_body_def)
  next
    case v1: False
    show ?thesis
    proof (cases "hint h0 ''version'' = 2 \<or> hint h0 ''version'' = 3")
      case False
      with assms rh v1 show ?thesis by (auto simp: load_data_body_def)
    next
      case True
      define h1 where "h1 = hset (hset h0 ''total_samples'' (HInt 0)) ''total_packages'' (HInt 0)"
      from assms rh v1 True obtain x xs where
        spp: "hints h1 ''stream_samples_per_package'' = x # xs"
        by (auto simp: load_data_body_def Let_def h1_def split: list.splits)
      define h2 where "h2 = hset h1 ''max_samples_stream'' (HInt (fold max xs x))"
      from assms rh v1 True spp obtain ok d1 h3 where
        p1: "read_packages e f h2 (file_type_of h0) False = Inr (ok, d1, h3)"
        by (auto simp: load_data_body_def Let_def h1_def h2_def split: sum.splits)
      show ?thesis
      proof (cases ok)
        case False
        with assms rh v1 True spp p1 show ?thesis
          by (auto simp: load_data_body_def Let_def h1_def h2_def)
      next
        case ok: True
        from assms rh v1 True spp p1 ok obtain ok2 d2 h4 where
          p2: "read_packages e f h3 (file_type_of h0) True = Inr (ok2, d2, h4)"
          by (auto simp: load_data_body_def Let_def h1_def h2_def split: sum.splits)
        from read_packages_hdr[OF p2] have "h4 = h3" by simp
        with assms rh v1 True spp p1 ok p2 have "h = h3"
          by (auto simp: load_data_body_def Let_def h1_def h2_def split: if_splits)
        with rh v1 True spp p1 ok show ?thesis
          by (auto simp: load_data_body_def Let_def h1_def h2_def)
      qed
    qed
  qed
qed


text \<open>A version-1 source file of 31 bytes: \<open>num_columns\<close> is 0, no column names, and 4
  bytes after the header.\<close>

definition file_v1_no_columns :: fbytes where
  "file_v1_no_columns =
    [1, 0, 0, 0, 115, 114, 99, 0, 0, 0, 0, 0, 0, 0, 0, 0, 0, 0, 0, 0,
     0, 0, 0, 0, 0, 0, 0, 5, 0, 0, 0]"

lemma read_header_file_v1_no_columns:
  "read_header file_v1_no_columns = Inr
     ([(''file_size'', HInt 31), (''version'', HInt 1), (''code'', HStr ''src''),
       (''sample_rate'', HFloat 0), (''num_playback_streams'', HInt 0),
       (''num_columns'', HInt 0), (''column_names_size'', HInt 0),
       (''column_names'', HStrs [[]]), (''pos_data_start'', HInt 27)], 27)"
  by (simp add: file_v1_no_columns_def eval_header)

text \<open>What holds for every file: a header-only read returns no matrix and does not depend
  on the memory of the machine (the allocator is not called), and a full read that returns
  a header returns the header of the header-only read.\<close>

lemma header_only_read:
  "snd (load_data e f False) = None \<and>
   load_data e' f False = load_data e f False \<and>
   (fst (load_data e f True) = None \<or>
    fst (load_data e f True) = fst (load_data e f False))"
proof -
  have a: "snd (load_data e f False) = None"
    by (auto simp: load_data_def dest: body_count_data split: sum.splits)
  have b: "load_data e' f False = load_data e f False"
    by (simp add: load_data_def body_count_env[of e' f e])
  have c: "fst (load_data e f True) = None \<or>
           fst (load_data e f True) = fst (load_data e f False)"
    by (auto simp: load_data_def dest: body_header split: sum.splits)
  from a b c show ?thesis by simp
qed

lemma header_only_read_file_v1_plugin:
  "fst (load_data env0 file_v1_plugin True) \<noteq> None \<and>
   fst (load_data env0 file_v1_plugin True) = fst (load_data env0 file_v1_plugin False)"
proof -
  have "fst (load_data env0 file_v1_plugin True) \<noteq> None"
    unfolding load_data_def load_data_body_def read_header_file_v1_plugin
    by (simp add: file_v1_plugin_def env0_def eval_v1 eval_packages eval_matrix eval_lists)
  with header_only_read[of env0 file_v1_plugin env0] show ?thesis by simp
qed

text \<open>
  Claim C7: for every file the header of a header-only read has the fields and values of
  the header of a full read. The docstring of \<^verbatim>\<open>load_data\<close> (``Returns as much of the header
  as possible'', data ``None on failure''), the comment of line 164 and the returns of
  lines 126-127 and 164-165 say that a full read whose data fails still returns the header.
  The code does not do it on \<open>file_v1_no_columns\<close>: the row size is \<open>4 - 8 = -4\<close> and
  \<open>num_rows\<close> is \<open>floor(4 / -4) = -1\<close>; the header-only read returns the header, the full
  read asks \<^verbatim>\<open>np.empty\<close> for \<open>-1\<close> rows, which raises ValueError, and the handler of line
  175 returns no header at all.
\<close>

theorem full_read_loses_header:
  "map_option (\<lambda>h. hint h ''num_rows'') (fst (load_data env0 file_v1_no_columns False)) = Some (- 1) \<and>
   load_data env0 file_v1_no_columns True = (None, None)"
  unfolding load_data_def load_data_body_def read_header_file_v1_no_columns
  by (simp add: file_v1_no_columns_def env0_def eval_v1 eval_packages eval_matrix)

subsection \<open>The fields of the header that depend on version and kind\<close>

text \<open>What \<^verbatim>\<open>load_data\<close> stores after the header is parsed: \<open>row_size\<close> and \<open>num_rows\<close>
  (version 1), \<open>total_samples\<close>, \<open>total_packages\<close> and \<open>max_samples_stream\<close> (versions 2
  and 3).\<close>

definition later_fields :: "header \<Rightarrow> header \<Rightarrow> bool" where
  "later_fields h h' =
     (\<forall>k. k = ''row_size'' \<or> k = ''num_rows'' \<or> k = ''total_samples'' \<or>
          k = ''total_packages'' \<or> k = ''max_samples_stream'' \<or> map_of h' k = map_of h k)"

lemma same_fields_later: "same_fields h h' \<Longrightarrow> later_fields h0 h \<Longrightarrow> later_fields h0 h'"
  unfolding same_fields_def later_fields_def by metis

lemma load_v1_fields: "load_v1 e f h p rd = Inr (h', d, p') \<Longrightarrow> later_fields h h'"
  by (auto simp: load_v1_def Let_def later_fields_def split: if_splits sum.splits option.splits)

lemma body_fields:
  assumes "load_data_body e f rd = Inr (h, d)"
  shows "\<exists>h0 p. read_header f = Inr (h0, p) \<and> later_fields h0 h"
proof -
  from assms obtain h0 p where rh: "read_header f = Inr (h0, p)"
    by (auto simp: load_data_body_def split: sum.splits)
  have "later_fields h0 h"
  proof (cases "hint h0 ''version'' = 1")
    case True
    with assms rh obtain d' p' where "load_v1 e f h0 p rd = Inr (h, d', p')"
      by (auto simp: load_data_body_def split: sum.splits)
    then show ?thesis by (rule load_v1_fields)
  next
    case v1: False
    show ?thesis
    proof (cases "hint h0 ''version'' = 2 \<or> hint h0 ''version'' = 3")
      case False
      with assms rh v1 show ?thesis by (auto simp: load_data_body_def later_fields_def)
    next
      case True
      define h1 where "h1 = hset (hset h0 ''total_samples'' (HInt 0)) ''total_packages'' (HInt 0)"
      from assms rh v1 True obtain x xs where
        spp: "hints h1 ''stream_samples_per_package'' = x # xs"
        by (auto simp: load_data_body_def Let_def h1_def split: list.splits)
      define h2 where "h2 = hset h1 ''max_samples_stream'' (HInt (fold max xs x))"
      have l2: "later_fields h0 h2"
        by (simp add: later_fields_def h2_def h1_def)
      from assms rh v1 True spp obtain ok d1 h3 where
        p1: "read_packages e f h2 (file_type_of h0) False = Inr (ok, d1, h3)"
        by (auto simp: load_data_body_def Let_def h1_def h2_def split: sum.splits)
      from read_packages_hdr[OF p1] l2 have l3: "later_fields h0 h3"
        by (auto intro: same_fields_later)
      show ?thesis
      proof (cases "ok \<and> rd")
        case False
        with assms rh v1 True spp p1 have "h = h3"
          by (auto simp: load_data_body_def Let_def h1_def h2_def)
        with l3 show ?thesis by simp
      next
        case ok: True
        from assms rh v1 True spp p1 ok obtain ok2 d2 h4 where
          p2: "read_packages e f h3 (file_type_of h0) True = Inr (ok2, d2, h4)"
          by (auto simp: load_data_body_def Let_def h1_def h2_def split: sum.splits)
        from read_packages_hdr[OF p2] have "h4 = h3" by simp
        with assms rh v1 True spp p1 ok p2 have "h = h3"
          by (auto simp: load_data_body_def Let_def h1_def h2_def split: if_splits)
        with l3 show ?thesis by simp
      qed
    qed
  qed
  with rh show ?thesis by blast
qed

lemma read_header_version:
  "read_header f = Inr (h, p) \<Longrightarrow>
     hint h ''version'' = 1 \<or> hint h ''version'' = 2 \<or> hint h ''version'' = 3"
  by (auto simp: read_header_def Let_def hint_def split_beta split: if_splits sum.splits)

lemma read_header_gate:
  assumes "read_header f = Inr (h, p)"
    and "k = ''run_start_epoch'' \<or> k = ''file_start_epoch'' \<or> k = ''num_streams'' \<or>
         k = ''stream_data_types'' \<or> k = ''stream_samples_per_package''"
  shows "has_key h k = (hint h ''version'' = 2 \<or> hint h ''version'' = 3)"
  using assms
  by (auto simp: read_header_def Let_def has_key_def hint_def split_beta
           split: if_splits sum.splits)

lemma read_header_gate_input_time:
  assumes "read_header f = Inr (h, p)"
  shows "has_key h ''includes_source_input_time'' =
           (lower (hstr h ''code'') = ''src'' \<and> hint h ''version'' = 3)"
  using assms
  by (auto simp: read_header_def Let_def has_key_def hint_def hstr_def split_beta
           split: if_splits sum.splits)

lemma later_fields_gates:
  assumes "later_fields h0 h"
  shows "hint h ''version'' = hint h0 ''version''"
    and "hstr h ''code'' = hstr h0 ''code''"
    and "has_key h ''run_start_epoch'' = has_key h0 ''run_start_epoch''"
    and "has_key h ''file_start_epoch'' = has_key h0 ''file_start_epoch''"
    and "has_key h ''num_streams'' = has_key h0 ''num_streams''"
    and "has_key h ''stream_data_types'' = has_key h0 ''stream_data_types''"
    and "has_key h ''stream_samples_per_package'' = has_key h0 ''stream_samples_per_package''"
    and "has_key h ''includes_source_input_time'' = has_key h0 ''includes_source_input_time''"
proof -
  have m: "map_of h k = map_of h0 k"
    if "k \<noteq> ''row_size''" "k \<noteq> ''num_rows''" "k \<noteq> ''total_samples''"
       "k \<noteq> ''total_packages''" "k \<noteq> ''max_samples_stream''" for k
    using spec[OF assms[unfolded later_fields_def], of k] that by simp
  show "hint h ''version'' = hint h0 ''version''" by (simp add: hint_def m)
  show "hstr h ''code'' = hstr h0 ''code''" by (simp add: hstr_def m)
  show "has_key h ''run_start_epoch'' = has_key h0 ''run_start_epoch''" by (simp add: has_key_def m)
  show "has_key h ''file_start_epoch'' = has_key h0 ''file_start_epoch''" by (simp add: has_key_def m)
  show "has_key h ''num_streams'' = has_key h0 ''num_streams''" by (simp add: has_key_def m)
  show "has_key h ''stream_data_types'' = has_key h0 ''stream_data_types''" by (simp add: has_key_def m)
  show "has_key h ''stream_samples_per_package'' = has_key h0 ''stream_samples_per_package''"
    by (simp add: has_key_def m)
  show "has_key h ''includes_source_input_time'' = has_key h0 ''includes_source_input_time''"
    by (simp add: has_key_def m)
qed


text \<open>
  Claim C6: in every header that \<^verbatim>\<open>load_data\<close> returns, \<open>run_start_epoch\<close>,
  \<open>file_start_epoch\<close>, \<open>num_streams\<close>, \<open>stream_data_types\<close> and
  \<open>stream_samples_per_package\<close> are keys of the dictionary if and only if the version is
  2 or 3, and \<open>includes_source_input_time\<close> is a key if and only if the code is \<open>src\<close> in
  any case and the version is 3. A field that is not present is no key at all: the
  dictionary holds no entry, not a zero or a null, for it. The version of a returned
  header is 1, 2 or 3.
\<close>

theorem gated_fields_present_iff:
  assumes "load_data e f read_data = (Some h, d)"
  shows "(hint h ''version'' = 1 \<or> hint h ''version'' = 2 \<or> hint h ''version'' = 3) \<and>
         has_key h ''run_start_epoch'' = (hint h ''version'' = 2 \<or> hint h ''version'' = 3) \<and>
         has_key h ''file_start_epoch'' = (hint h ''version'' = 2 \<or> hint h ''version'' = 3) \<and>
         has_key h ''num_streams'' = (hint h ''version'' = 2 \<or> hint h ''version'' = 3) \<and>
         has_key h ''stream_data_types'' = (hint h ''version'' = 2 \<or> hint h ''version'' = 3) \<and>
         has_key h ''stream_samples_per_package'' =
           (hint h ''version'' = 2 \<or> hint h ''version'' = 3) \<and>
         has_key h ''includes_source_input_time'' =
           (lower (hstr h ''code'') = ''src'' \<and> hint h ''version'' = 3)"
proof -
  from assms have "load_data_body e f read_data = Inr (h, d)"
    by (auto simp: load_data_def split: sum.splits)
  from body_fields[OF this] obtain h0 p where
    rh: "read_header f = Inr (h0, p)" and lf: "later_fields h0 h" by blast
  note g = later_fields_gates[OF lf]
  show ?thesis
    unfolding g
    using read_header_version[OF rh] read_header_gate[OF rh] read_header_gate_input_time[OF rh]
    by simp
qed

text \<open>A version-3 source file of 92 bytes: source input time included, two streams of
  one sample per package, five columns, and one package (id 7, elapsed 1.5, input time
  0.25, 1 sample, values 10.0 and 20.0).\<close>

definition file_source_v3 :: fbytes where
  "file_source_v3 =
    [3, 0, 0, 0, 115, 114, 99, 0, 0, 0, 0, 0, 0, 0, 0, 0, 0, 0, 0, 0,
     0, 0, 0, 1, 0, 0, 0, 0, 0, 0, 0, 0, 0, 0, 0, 0, 2, 0, 0, 0,
     0, 1, 0, 0, 1, 0, 5, 0, 0, 0, 0, 0, 0, 0, 7, 0, 0, 0, 0, 0,
     0, 0, 0, 0, 248, 63, 0, 0, 0, 0, 0, 0, 208, 63, 1, 0, 0, 0, 0, 0,
     0, 0, 36, 64, 0, 0, 0, 0, 0, 0, 52, 64]"

lemma read_header_file_source_v3:
  "read_header file_source_v3 = Inr
     ([(''file_size'', HInt 92), (''version'', HInt 3), (''code'', HStr ''src''),
       (''run_start_epoch'', HInt 0), (''file_start_epoch'', HInt 0),
       (''includes_source_input_time'', HBool True), (''sample_rate'', HFloat 0),
       (''num_playback_streams'', HInt 0), (''num_streams'', HInt 2),
       (''stream_data_types'', HInts [0, 0]), (''stream_samples_per_package'', HInts [1, 1]),
       (''num_columns'', HInt 5), (''column_names_size'', HInt 0),
       (''column_names'', HStrs [[]]), (''pos_data_start'', HInt 54)], 54)"
  by (simp add: file_source_v3_def eval_header)

lemma load_data_file_source_v3:
  "load_data env0 file_source_v3 False =
     (Some ([(''file_size'', HInt 92), (''version'', HInt 3), (''code'', HStr ''src''),
       (''run_start_epoch'', HInt 0), (''file_start_epoch'', HInt 0),
       (''includes_source_input_time'', HBool True), (''sample_rate'', HFloat 0),
       (''num_playback_streams'', HInt 0), (''num_streams'', HInt 2),
       (''stream_data_types'', HInts [0, 0]), (''stream_samples_per_package'', HInts [1, 1]),
       (''num_columns'', HInt 5), (''column_names_size'', HInt 0),
       (''column_names'', HStrs [[]]), (''pos_data_start'', HInt 54),
       (''total_samples'', HInt 1), (''total_packages'', HInt 1),
       (''max_samples_stream'', HInt 1)]), None)"
  unfolding load_data_def load_data_body_def read_header_file_source_v3
  by (simp add: file_source_v3_def env0_def eval_packages)

theorem gated_fields_present_iff_witness:
  "has_key (the (fst (load_data env0 file_source_v3 False))) ''includes_source_input_time'' \<and>
   has_key (the (fst (load_data env0 file_source_v3 False))) ''run_start_epoch'' \<and>
   hint (the (fst (load_data env0 file_source_v3 False))) ''version'' = 3"
proof -
  note g = gated_fields_present_iff[OF load_data_file_source_v3]
  have v: "hint (the (fst (load_data env0 file_source_v3 False))) ''version'' = 3"
    by (simp add: load_data_file_source_v3 hint_def)
  have c: "lower (hstr (the (fst (load_data env0 file_source_v3 False))) ''code'') = ''src''"
    by (simp add: load_data_file_source_v3 hstr_def lower_def char_of_def)
  from g v c show ?thesis
    by (simp add: load_data_file_source_v3)
qed

subsection \<open>The cells that the materializing pass does not write\<close>

text \<open>Two matrices of one shape agree when every cell holds the same value in both or
  holds \<open>a\<close> in the first and \<open>b\<close> in the second: they started filled with \<open>a\<close> and with
  \<open>b\<close> and went through the same assignments. Two states of the loops agree when their
  matrices do and everything else is equal.\<close>

definition cell_ok :: "cell \<Rightarrow> cell \<Rightarrow> cell \<Rightarrow> cell \<Rightarrow> bool" where
  "cell_ok a b x y = (x = y \<or> (x = a \<and> y = b))"

lemma cell_ok_refl [simp]: "cell_ok a b x x"
  by (simp add: cell_ok_def)

definition cells_agree :: "cell \<Rightarrow> cell \<Rightarrow> matrix \<Rightarrow> matrix \<Rightarrow> bool" where
  "cells_agree a b m m' =
     (ncols m' = ncols m \<and>
      list_all2 (list_all2 (cell_ok a b)) (rows m) (rows m') \<and>
      list_all (\<lambda>r. length r = ncols m) (rows m))"

lemma cells_agreeD:
  assumes "cells_agree a b m m'"
  shows "ncols m' = ncols m"
    and "length (rows m') = length (rows m)"
    and "i < length (rows m) \<Longrightarrow> length (rows m ! i) = ncols m"
    and "i < length (rows m) \<Longrightarrow> length (rows m' ! i) = ncols m"
    and "i < length (rows m) \<Longrightarrow> j < ncols m \<Longrightarrow> cell_ok a b (rows m ! i ! j) (rows m' ! i ! j)"
proof -
  from assms have n: "ncols m' = ncols m"
    and r: "list_all2 (list_all2 (cell_ok a b)) (rows m) (rows m')"
    and l: "list_all (\<lambda>r. length r = ncols m) (rows m)"
    by (simp_all add: cells_agree_def)
  show "ncols m' = ncols m" by (rule n)
  from r show len: "length (rows m') = length (rows m)" by (simp add: list_all2_lengthD)
  show li: "length (rows m ! i) = ncols m" if "i < length (rows m)"
    using l that by (simp add: list_all_length)
  have ri: "list_all2 (cell_ok a b) (rows m ! i) (rows m' ! i)" if "i < length (rows m)"
    using r that by (simp add: list_all2_nthD)
  show "length (rows m' ! i) = ncols m" if "i < length (rows m)"
    using ri[OF that] li[OF that] by (simp add: list_all2_lengthD)
  show "cell_ok a b (rows m ! i ! j) (rows m' ! i ! j)" if "i < length (rows m)" "j < ncols m"
    using ri[OF that(1)] li[OF that(1)] that(2) by (simp add: list_all2_nthD)
qed

lemma cells_agreeI:
  assumes "ncols m' = ncols m" and "length (rows m') = length (rows m)"
    and "\<And>i. i < length (rows m) \<Longrightarrow>
           length (rows m ! i) = ncols m \<and> length (rows m' ! i) = ncols m \<and>
           (\<forall>j<ncols m. cell_ok a b (rows m ! i ! j) (rows m' ! i ! j))"
  shows "cells_agree a b m m'"
  using assms by (simp add: cells_agree_def list_all2_conv_all_nth list_all_length)

lemma filled_agree: "cells_agree a b (filled r c a) (filled r c b)"
  by (rule cells_agreeI) (simp_all add: filled_def cell_ok_def)

lemma set_cell_agree:
  assumes "cells_agree a b m m'"
  shows "rel_sum (=) (cells_agree a b) (set_cell m i j v) (set_cell m' i j v)"
proof (cases "i < nrows m \<and> j < ncols m")
  case False
  with cells_agreeD(1,2)[OF assms] show ?thesis by (auto simp: set_cell_def nrows_def)
next
  case True
  note d = cells_agreeD[OF assms]
  have "cells_agree a b (m\<lparr>rows := (rows m)[i := (rows m ! i)[j := v]]\<rparr>)
          (m'\<lparr>rows := (rows m')[i := (rows m' ! i)[j := v]]\<rparr>)"
    by (rule cells_agreeI) (use d True in \<open>auto simp: nth_list_update nrows_def\<close>)
  with True d(1,2) show ?thesis by (simp add: set_cell_def nrows_def)
qed

lemma set_col_agree:
  assumes "cells_agree a b m m'"
  shows "rel_sum (=) (cells_agree a b) (set_col m r0 r1 j v) (set_col m' r0 r1 j v)"
proof (cases "j < ncols m")
  case False
  with cells_agreeD(1)[OF assms] show ?thesis by (simp add: set_col_def)
next
  case True
  note d = cells_agreeD[OF assms]
  have "cells_agree a b
          (m\<lparr>rows := map (\<lambda>i. if r0 \<le> i \<and> i < r1 then (rows m ! i)[j := v] else rows m ! i)
                        [0..<length (rows m)]\<rparr>)
          (m'\<lparr>rows := map (\<lambda>i. if r0 \<le> i \<and> i < r1 then (rows m' ! i)[j := v] else rows m' ! i)
                        [0..<length (rows m)]\<rparr>)"
    by (rule cells_agreeI) (use d True in \<open>auto simp: nth_list_update nrows_def\<close>)
  with True d(1,2) show ?thesis by (simp add: set_col_def nrows_def)
qed

lemma set_row_agree:
  assumes "cells_agree a b m m'"
  shows "rel_sum (=) (cells_agree a b) (set_row m i c0 c1 vals) (set_row m' i c0 c1 vals)"
proof (cases "i < nrows m \<and>
    (length vals = min c1 (ncols m) - min c0 (ncols m) \<or> length vals = 1)")
  case False
  with cells_agreeD(1,2)[OF assms] show ?thesis by (auto simp: set_row_def nrows_def)
next
  case True
  note d = cells_agreeD[OF assms]
  have "cells_agree a b
          (m\<lparr>rows := (rows m)[i := map (\<lambda>j. if c0 \<le> j \<and> j < c1
                           then vals ! (if length vals = 1 then 0 else j - c0)
                           else rows m ! i ! j) [0..<ncols m]]\<rparr>)
          (m'\<lparr>rows := (rows m')[i := map (\<lambda>j. if c0 \<le> j \<and> j < c1
                           then vals ! (if length vals = 1 then 0 else j - c0)
                           else rows m' ! i ! j) [0..<ncols m]]\<rparr>)"
    by (rule cells_agreeI) (use d True in \<open>auto simp: nth_list_update nrows_def\<close>)
  with True d(1,2) show ?thesis by (auto simp: set_row_def nrows_def)
qed

lemma set_block_agree:
  assumes "cells_agree a b m m'"
  shows "rel_sum (=) (cells_agree a b) (set_block m r0 r1 c0 c1 blk) (set_block m' r0 r1 c0 c1 blk)"
proof (cases "(nrows blk = min r1 (nrows m) - min r0 (nrows m) \<or> nrows blk = 1) \<and>
         (ncols blk = min c1 (ncols m) - min c0 (ncols m) \<or> ncols blk = 1)")
  case False
  with cells_agreeD(1,2)[OF assms] show ?thesis by (auto simp: set_block_def nrows_def)
next
  case True
  note d = cells_agreeD[OF assms]
  have "cells_agree a b
          (m\<lparr>rows := map (\<lambda>i.
                 if r0 \<le> i \<and> i < r1
                 then map (\<lambda>j. if c0 \<le> j \<and> j < c1
                                then rows blk ! (if nrows blk = 1 then 0 else i - r0)
                                              ! (if ncols blk = 1 then 0 else j - c0)
                                else rows m ! i ! j) [0..<ncols m]
                 else rows m ! i) [0..<length (rows m)]\<rparr>)
          (m'\<lparr>rows := map (\<lambda>i.
                 if r0 \<le> i \<and> i < r1
                 then map (\<lambda>j. if c0 \<le> j \<and> j < c1
                                then rows blk ! (if nrows blk = 1 then 0 else i - r0)
                                              ! (if ncols blk = 1 then 0 else j - c0)
                                else rows m' ! i ! j) [0..<ncols m']
                 else rows m' ! i) [0..<length (rows m')]\<rparr>)"
    by (rule cells_agreeI) (use d True in \<open>auto simp: nrows_def\<close>)
  with True d(1,2) show ?thesis by (auto simp: set_block_def nrows_def)
qed

definition states_agree :: "cell \<Rightarrow> cell \<Rightarrow> pstate \<Rightarrow> pstate \<Rightarrow> bool" where
  "states_agree a b st st' =
     (pos st' = pos st \<and> hdr st' = hdr st \<and> row_index st' = row_index st \<and>
      num_samples st' = num_samples st \<and> cells_agree a b (data st) (data st'))"

lemma rel_sum_Inl: "rel_sum (=) R x x' \<Longrightarrow> x = Inl e \<Longrightarrow> x' = Inl e"
  by (cases x') auto

lemma rel_sum_Inr: "rel_sum (=) R x x' \<Longrightarrow> x = Inr d \<Longrightarrow> \<exists>d'. x' = Inr d' \<and> R d d'"
  by (cases x') auto

lemma rel_sum_bind:
  assumes "rel_sum (=) R x x'"
    and "\<And>d d'. R d d' \<Longrightarrow> rel_sum (=) S (g d) (g' d')"
  shows "rel_sum (=) S (case x of Inl e \<Rightarrow> Inl e | Inr d \<Rightarrow> g d)
                       (case x' of Inl e \<Rightarrow> Inl e | Inr d \<Rightarrow> g' d)"
  using assms by (cases x; cases x') auto

lemma write_block_agree:
  assumes "cells_agree a b m m'"
  shows "rel_sum (=) (cells_agree a b) (write_block m r n c ns vals) (write_block m' r n c ns vals)"
  unfolding write_block_def
  by (cases "reshape vals ns") (simp_all add: set_block_agree[OF assms])

lemma write_ids_agree:
  assumes "cells_agree a b m m'"
  shows "rel_sum (=) (cells_agree a b) (write_ids m r n iit ph) (write_ids m' r n iit ph)"
proof -
  obtain x y z where ph: "ph = (x, y, z)" by (cases ph)
  show ?thesis
    unfolding write_ids_def ph Let_def prod.case
  proof (rule rel_sum_bind[OF set_col_agree[OF assms]], rule rel_sum_bind)
    fix d1 d1' assume "cells_agree a b d1 d1'"
    then show "rel_sum (=) (cells_agree a b) (set_col d1 r (r + n) 1 (Dbl y))
                 (set_col d1' r (r + n) 1 (Dbl y))"
      by (rule set_col_agree)
  next
    fix d2 d2' assume "cells_agree a b d2 d2'"
    then show "rel_sum (=) (cells_agree a b)
                 (if iit then set_col d2 r (r + n) 2 (Dbl z) else Inr d2)
                 (if iit then set_col d2' r (r + n) 2 (Dbl z) else Inr d2')"
      by (simp add: set_col_agree)
  qed
qed

lemma write_row_agree:
  assumes "cells_agree a b m m'"
  shows "rel_sum (=) (cells_agree a b) (write_row m r c ns iit ph vals)
           (write_row m' r c ns iit ph vals)"
proof -
  obtain x y z where ph: "ph = (x, y, z)" by (cases ph)
  have opt: "rel_sum (=) (cells_agree a b)
               (if iit then set_cell d r 2 (Dbl z) else Inr d)
               (if iit then set_cell d' r 2 (Dbl z) else Inr d')"
    if "cells_agree a b d d'" for d d'
    using that by (simp add: set_cell_agree)
  show ?thesis
    unfolding write_row_def ph Let_def prod.case
    by (intro rel_sum_bind[where R = "cells_agree a b"] set_cell_agree set_row_agree opt assms)
qed

lemma write_package_agree:
  assumes "cells_agree a b m m'"
  shows "rel_sum (=) (cells_agree a b) (write_package m r n c ns iit ph vals)
           (write_package m' r n c ns iit ph vals)"
  unfolding write_package_def
  by (cases "n = 1")
     (auto intro!: write_row_agree[OF assms] rel_sum_bind[OF write_ids_agree[OF assms]]
                   write_block_agree)

lemma chunk_step_agree:
  assumes "states_agree a b st st'"
  shows "rel_sum (=) (rel_flow (rel_prod (states_agree a b) (=)))
           (chunk_step f rd hc st si) (chunk_step f rd hc st' si)"
proof -
  from assms have eq: "pos st' = pos st" "hdr st' = hdr st" "row_index st' = row_index st"
    "num_samples st' = num_samples st" and c: "cells_agree a b (data st) (data st')"
    by (simp_all add: states_agree_def)
  show ?thesis
    unfolding chunk_step_def Let_def split_beta eq
    by (auto simp: states_agree_def eq c split: sum.split
             dest: write_block_agree[OF c, THEN rel_sum_Inl]
                   write_block_agree[OF c, THEN rel_sum_Inr])
qed

lemma flat_package_agree:
  assumes "states_agree a b st st'"
  shows "rel_sum (=) (rel_flow (states_agree a b))
           (flat_package f ft rd iit hc ph st) (flat_package f ft rd iit hc ph st')"
proof -
  from assms have eq: "pos st' = pos st" "hdr st' = hdr st" "row_index st' = row_index st"
    "num_samples st' = num_samples st" and c: "cells_agree a b (data st) (data st')"
    by (simp_all add: states_agree_def)
  show ?thesis
    unfolding flat_package_def Let_def split_beta eq
    by (auto simp: states_agree_def eq c split: sum.split
             dest: write_package_agree[OF c, THEN rel_sum_Inl]
                   write_package_agree[OF c, THEN rel_sum_Inr])
qed

lemma read_chunks_agree:
  "states_agree a b st st' \<Longrightarrow>
     rel_sum (=) (rel_flow (rel_prod (states_agree a b) (=)))
       (read_chunks f rd hc st si) (read_chunks f rd hc st' si)"
proof (induction f rd hc st si arbitrary: st' rule: read_chunks.induct)
  case (1 f rd hc st si)
  from "1.prems" have eq: "pos st' = pos st" "hdr st' = hdr st"
    by (simp_all add: states_agree_def)
  show ?case
  proof (cases "si < hnat (hdr st) ''num_streams'' \<and> pos st + 4 \<le> length f")
    case False
    then have "read_chunks f rd hc st si = Inr (Continue (st, si))"
      by (subst read_chunks.simps) auto
    moreover from False eq have "read_chunks f rd hc st' si = Inr (Continue (st', si))"
      by (subst read_chunks.simps) auto
    ultimately show ?thesis using "1.prems" by simp
  next
    case True
    note step = chunk_step_agree[OF "1.prems", of f rd hc si]
    have unf: "read_chunks f rd hc st si =
        (case chunk_step f rd hc st si of Inl e \<Rightarrow> Inl e
         | Inr (Return r) \<Rightarrow> Inr (Return r)
         | Inr (Continue (s, i)) \<Rightarrow> read_chunks f rd hc s i)"
      using True by (subst read_chunks.simps) simp
    have unf': "read_chunks f rd hc st' si =
        (case chunk_step f rd hc st' si of Inl e \<Rightarrow> Inl e
         | Inr (Return r) \<Rightarrow> Inr (Return r)
         | Inr (Continue (s, i)) \<Rightarrow> read_chunks f rd hc s i)"
      using True eq by (subst read_chunks.simps) simp
    show ?thesis
    proof (cases "chunk_step f rd hc st si")
      case (Inl e)
      from rel_sum_Inl[OF step Inl] Inl show ?thesis by (simp add: unf unf')
    next
      case (Inr r)
      from rel_sum_Inr[OF step Inr] obtain r' where
        r': "chunk_step f rd hc st' si = Inr r'"
        and rr: "rel_flow (rel_prod (states_agree a b) (=)) r r'" by blast
      show ?thesis
      proof (cases r)
        case (Return x)
        with rr obtain x' where "r' = Return x'" "rel_prod (states_agree a b) (=) x x'"
          by (cases r') auto
        with Inr r' Return show ?thesis by (simp add: unf unf')
      next
        case (Continue x)
        obtain s2 si2 where x: "x = (s2, si2)" by (cases x)
        from rr Continue x obtain s2' where r'2: "r' = Continue (s2', si2)"
          and s2: "states_agree a b s2 s2'"
          by (cases r') auto
        from Inr Continue x have st2: "chunk_step f rd hc st si = Inr (Continue (s2, si2))"
          by simp
        from "1.IH"[OF True st2 refl refl s2] st2 r' r'2 show ?thesis
          by (simp add: unf unf')
      qed
    qed
  qed
qed

lemma chunked_package_agree:
  assumes "states_agree a b st st'"
  shows "rel_sum (=) (rel_flow (states_agree a b))
           (chunked_package f rd hc ph st) (chunked_package f rd hc ph st')"
proof -
  note rc = read_chunks_agree[OF assms, of f rd hc 0]
  show ?thesis
  proof (cases "read_chunks f rd hc st 0")
    case (Inl e)
    from rel_sum_Inl[OF rc Inl] Inl show ?thesis by (simp add: chunked_package_def)
  next
    case (Inr r)
    from rel_sum_Inr[OF rc Inr] obtain r' where
      r': "read_chunks f rd hc st' 0 = Inr r'"
      and rr: "rel_flow (rel_prod (states_agree a b) (=)) r r'" by blast
    show ?thesis
    proof (cases r)
      case (Return x)
      with rr obtain x' where "r' = Return x'" "rel_prod (states_agree a b) (=) x x'"
        by (cases r') auto
      with Inr r' Return show ?thesis
        by (cases x; cases x') (simp add: chunked_package_def)
    next
      case (Continue x)
      obtain s si where x: "x = (s, si)" by (cases x)
      from rr Continue x obtain s' where r'2: "r' = Continue (s', si)"
        and s2: "states_agree a b s s'"
        by (cases r') auto
      from s2 have eq: "pos s' = pos s" "hdr s' = hdr s" "row_index s' = row_index s"
        "num_samples s' = num_samples s" and c: "cells_agree a b (data s) (data s')"
        by (simp_all add: states_agree_def)
      from Inr r' Continue x r'2 show ?thesis
        by (auto simp: chunked_package_def states_agree_def eq c
                 split: sum.split option.split
                 dest: write_ids_agree[OF c, THEN rel_sum_Inl]
                       write_ids_agree[OF c, THEN rel_sum_Inr])
    qed
  qed
qed

lemma package_step_agree:
  assumes "states_agree a b st st'"
  shows "rel_sum (=) (rel_flow (states_agree a b))
           (package_step f ft rd iit hc st) (package_step f ft rd iit hc st')"
proof -
  from assms have eq: "pos st' = pos st" "hdr st' = hdr st"
    by (simp_all add: states_agree_def)
  have upd: "states_agree a b (st\<lparr>pos := p\<rparr>) (st'\<lparr>pos := p\<rparr>)" for p
    using assms by (simp add: states_agree_def)
  show ?thesis
    unfolding package_step_def eq
    by (cases "read_package_header f rd iit (pos st)")
       (auto simp: chunked_package_agree[OF upd] flat_package_agree[OF upd])
qed

lemma packages_loop_agree:
  "states_agree a b st st' \<Longrightarrow>
     rel_sum (=) (states_agree a b)
       (packages_loop f ft rd iit hc st) (packages_loop f ft rd iit hc st')"
proof (induction f ft rd iit hc st arbitrary: st' rule: packages_loop.induct)
  case (1 f ft rd iit hc st)
  from "1.prems" have eq: "pos st' = pos st"
    by (simp_all add: states_agree_def)
  show ?case
  proof (cases "pos st + package_header_size ft iit \<le> length f")
    case False
    then have "packages_loop f ft rd iit hc st = Inr st"
      by (subst packages_loop.simps) simp
    moreover from False eq have "packages_loop f ft rd iit hc st' = Inr st'"
      by (subst packages_loop.simps) simp
    ultimately show ?thesis using "1.prems" by simp
  next
    case True
    note step = package_step_agree[OF "1.prems", of f ft rd iit hc]
    have unf: "packages_loop f ft rd iit hc st =
        (case package_step f ft rd iit hc st of Inl e \<Rightarrow> Inl e
         | Inr (Return s) \<Rightarrow> Inr s
         | Inr (Continue s) \<Rightarrow> packages_loop f ft rd iit hc s)"
      using True by (subst packages_loop.simps) simp
    have unf': "packages_loop f ft rd iit hc st' =
        (case package_step f ft rd iit hc st' of Inl e \<Rightarrow> Inl e
         | Inr (Return s) \<Rightarrow> Inr s
         | Inr (Continue s) \<Rightarrow> packages_loop f ft rd iit hc s)"
      using True eq by (subst packages_loop.simps) simp
    show ?thesis
    proof (cases "package_step f ft rd iit hc st")
      case (Inl e)
      from rel_sum_Inl[OF step Inl] Inl show ?thesis by (simp add: unf unf')
    next
      case (Inr r)
      from rel_sum_Inr[OF step Inr] obtain r' where
        r': "package_step f ft rd iit hc st' = Inr r'"
        and rr: "rel_flow (states_agree a b) r r'" by blast
      show ?thesis
      proof (cases r)
        case (Return s)
        with rr obtain s' where "r' = Return s'" "states_agree a b s s'"
          by (cases r') auto
        with Inr r' Return show ?thesis by (simp add: unf unf')
      next
        case (Continue s)
        with rr obtain s' where r'2: "r' = Continue s'" and s2: "states_agree a b s s'"
          by (cases r') auto
        from "1.IH"[OF True Inr Continue s2] Inr Continue r' r'2 show ?thesis
          by (simp add: unf unf')
      qed
    qed
  qed
qed

text \<open>The loop of the materializing pass (lines 217-373) started on a matrix of the shape of
  line 209 whose cells all hold \<open>fill_value\<close>. With NaN, the default of
  \<^verbatim>\<open>_allocate_array\<close>, this is the loop that \<^verbatim>\<open>__read_packages\<close> runs.\<close>

definition materialize :: "fbytes \<Rightarrow> header \<Rightarrow> nat \<Rightarrow> cell \<Rightarrow> exn + pstate" where
  "materialize f header file_type fill_value =
     (let includes_input_time =
            (file_type = 0 \<and> has_key header ''includes_source_input_time''
             \<and> hbool header ''includes_source_input_time'');
          hc = data_num_header_columns file_type includes_input_time
      in packages_loop f file_type True includes_input_time hc
           \<lparr>pos = hnat header ''pos_data_start'', hdr = header,
            data = filled (nat (hint header ''total_samples''))
                     (nat (hint header ''num_streams'' + int hc)) fill_value,
            row_index = 0, num_samples = None\<rparr>)"

lemma read_packages_materialize:
  assumes "read_packages e f h ft True = Inr (ok, Some m, h')"
  shows "\<exists>s. materialize f h ft NaN = Inr s \<and> data s = m"
  using assms
  by (auto simp: read_packages_def materialize_def allocate_array_palmtree_def Let_def
           split: if_splits sum.splits option.splits)

lemma materialize_agree:
  "rel_sum (=) (states_agree a b) (materialize f h ft a) (materialize f h ft b)"
  unfolding materialize_def Let_def
  by (rule packages_loop_agree) (simp add: states_agree_def filled_agree)

lemma body_materialized:
  assumes "load_data_body e f True = Inr (h, Some m)" and "hint h ''version'' \<noteq> 1"
  shows "read_packages e f h (file_type_of h) True = Inr (True, Some m, h)"
proof -
  from body_fields[OF assms(1)] obtain h0 p where
    rh: "read_header f = Inr (h0, p)" and lf: "later_fields h0 h" by blast
  note g = later_fields_gates(1,2)[OF lf]
  from g have ft: "file_type_of h = file_type_of h0" by (simp add: file_type_of_def)
  from assms(2) g have v1: "hint h0 ''version'' \<noteq> 1" by simp
  have v23: "hint h0 ''version'' = 2 \<or> hint h0 ''version'' = 3"
    using read_header_version[OF rh] v1 by simp
  define h1 where "h1 = hset (hset h0 ''total_samples'' (HInt 0)) ''total_packages'' (HInt 0)"
  from assms(1) rh v1 v23 obtain x xs where
    spp: "hints h1 ''stream_samples_per_package'' = x # xs"
    by (auto simp: load_data_body_def Let_def h1_def split: list.splits)
  define h2 where "h2 = hset h1 ''max_samples_stream'' (HInt (fold max xs x))"
  from assms(1) rh v1 v23 spp obtain ok d1 h3 where
    p1: "read_packages e f h2 (file_type_of h0) False = Inr (ok, d1, h3)"
    by (auto simp: load_data_body_def Let_def h1_def h2_def split: sum.splits)
  from assms(1) rh v1 v23 spp p1 have ok: ok
    by (auto simp: load_data_body_def Let_def h1_def h2_def split: if_splits)
  from assms(1) rh v1 v23 spp p1 ok obtain ok2 d2 h4 where
    p2: "read_packages e f h3 (file_type_of h0) True = Inr (ok2, d2, h4)"
    by (auto simp: load_data_body_def Let_def h1_def h2_def split: sum.splits)
  from read_packages_hdr[OF p2] have h4: "h4 = h3" by simp
  from assms(1) rh v1 v23 spp p1 ok p2 h4 have "h = h3 \<and> ok2 \<and> d2 = Some m"
    by (auto simp: load_data_body_def Let_def h1_def h2_def split: if_splits)
  with p2 h4 ft show ?thesis by simp
qed

text \<open>
  Claim C10: the matrix of the materializing pass is allocated with NaN in every cell, so
  a cell that the pass does not write still holds NaN when \<^verbatim>\<open>load_data\<close> returns. For
  the matrix \<open>m\<close> that a full read of a version-2/3 file returns: \<open>m\<close> is what the loop of
  the pass makes of a matrix of NaN; the loop started on a matrix filled with any other
  value \<open>v\<close> returns as well; and each cell of \<open>m\<close> either holds the value that the loop
  puts there whatever the matrix held before, or was left alone and holds NaN.
\<close>

theorem unwritten_cells_hold_nan:
  assumes "load_data e f True = (Some h, Some m)"
    and "hint h ''version'' = 2 \<or> hint h ''version'' = 3"
    and "i < nrows m" and "j < ncols m"
  shows "\<exists>s s'. materialize f h (file_type_of h) NaN = Inr s \<and> data s = m \<and>
           materialize f h (file_type_of h) v = Inr s' \<and>
           (rows m ! i ! j = rows (data s') ! i ! j \<or>
            (rows m ! i ! j = NaN \<and> rows (data s') ! i ! j = v))"
proof -
  from assms(1) have b: "load_data_body e f True = Inr (h, Some m)"
    by (auto simp: load_data_def split: sum.splits)
  from assms(2) have "hint h ''version'' \<noteq> 1" by auto
  from read_packages_materialize[OF body_materialized[OF b this]] obtain s where
    s: "materialize f h (file_type_of h) NaN = Inr s" and m: "data s = m" by blast
  from rel_sum_Inr[OF materialize_agree s] obtain s' where
    s': "materialize f h (file_type_of h) v = Inr s'" and ag: "states_agree NaN v s s'"
    by blast
  from ag m have "cells_agree NaN v m (data s')" by (simp add: states_agree_def)
  from cells_agreeD(5)[OF this] assms(3,4)
  have "cell_ok NaN v (rows m ! i ! j) (rows (data s') ! i ! j)" by (simp add: nrows_def)
  with s m s' show ?thesis by (auto simp: cell_ok_def)
qed

text \<open>A version-2 pipeline file of 97 bytes: two streams with 1 and 2 samples per package,
  four columns, and one package (id 1, elapsed 0.5) of two chunks: 1 stream of 1 sample
  (value 1.0), then 1 stream of 2 samples (values 2.0, 3.0). The package takes two rows,
  and the first chunk fills its column in the first of them only.\<close>

definition file_chunks_1_2 :: fbytes where
  "file_chunks_1_2 =
    [2, 0, 0, 0, 100, 97, 116, 0, 0, 0, 0, 0, 0, 0, 0, 0, 0, 0, 0, 0,
     0, 0, 0, 0, 0, 0, 0, 0, 0, 0, 0, 0, 0, 0, 0, 2, 0, 0, 0, 0,
     1, 0, 0, 2, 0, 4, 0, 0, 0, 0, 0, 0, 0, 1, 0, 0, 0, 0, 0, 0,
     0, 0, 0, 224, 63, 1, 0, 1, 0, 0, 0, 0, 0, 0, 0, 240, 63, 1, 0, 2,
     0, 0, 0, 0, 0, 0, 0, 0, 64, 0, 0, 0, 0, 0, 0, 8, 64]"

lemma read_header_file_chunks_1_2:
  "read_header file_chunks_1_2 = Inr
     ([(''file_size'', HInt 97), (''version'', HInt 2), (''code'', HStr ''dat''),
       (''run_start_epoch'', HInt 0), (''file_start_epoch'', HInt 0),
       (''sample_rate'', HFloat 0), (''num_playback_streams'', HInt 0),
       (''num_streams'', HInt 2), (''stream_data_types'', HInts [0, 0]),
       (''stream_samples_per_package'', HInts [1, 2]), (''num_columns'', HInt 4),
       (''column_names_size'', HInt 0), (''column_names'', HStrs [[]]),
       (''pos_data_start'', HInt 53)], 53)"
  by (simp add: file_chunks_1_2_def eval_header)

lemma load_data_file_chunks_1_2:
  "load_data env0 file_chunks_1_2 True =
     (Some [(''file_size'', HInt 97), (''version'', HInt 2), (''code'', HStr ''dat''),
       (''run_start_epoch'', HInt 0), (''file_start_epoch'', HInt 0),
       (''sample_rate'', HFloat 0), (''num_playback_streams'', HInt 0),
       (''num_streams'', HInt 2), (''stream_data_types'', HInts [0, 0]),
       (''stream_samples_per_package'', HInts [1, 2]), (''num_columns'', HInt 4),
       (''column_names_size'', HInt 0), (''column_names'', HStrs [[]]),
       (''pos_data_start'', HInt 53), (''total_samples'', HInt 2),
       (''total_packages'', HInt 1), (''max_samples_stream'', HInt 2)],
      Some \<lparr>ncols = 4, rows =
        [[IntVal 1, Dbl 4602678819172646912, Dbl 4607182418800017408, Dbl 4611686018427387904],
         [IntVal 1, Dbl 4602678819172646912, NaN, Dbl 4613937818241073152]]\<rparr>)"
  unfolding load_data_def load_data_body_def read_header_file_chunks_1_2
  by (simp add: file_chunks_1_2_def env0_def eval_packages eval_matrix eval_lists)

theorem unwritten_cells_hold_nan_witness:
  "rows (the (snd (load_data env0 file_chunks_1_2 True))) ! 1 ! 2 = NaN \<and>
   (\<exists>s s'. materialize file_chunks_1_2 (the (fst (load_data env0 file_chunks_1_2 True)))
              (file_type_of (the (fst (load_data env0 file_chunks_1_2 True)))) NaN = Inr s \<and>
           data s = the (snd (load_data env0 file_chunks_1_2 True)) \<and>
           materialize file_chunks_1_2 (the (fst (load_data env0 file_chunks_1_2 True)))
              (file_type_of (the (fst (load_data env0 file_chunks_1_2 True)))) (IntVal 0) = Inr s' \<and>
           (rows (the (snd (load_data env0 file_chunks_1_2 True))) ! 1 ! 2 = rows (data s') ! 1 ! 2 \<or>
            (rows (the (snd (load_data env0 file_chunks_1_2 True))) ! 1 ! 2 = NaN \<and>
             rows (data s') ! 1 ! 2 = IntVal 0)))"
proof -
  note ld = load_data_file_chunks_1_2
  have nan: "rows (the (snd (load_data env0 file_chunks_1_2 True))) ! 1 ! 2 = NaN"
    by (simp add: ld)
  have "\<exists>s s'. materialize file_chunks_1_2 (the (fst (load_data env0 file_chunks_1_2 True)))
              (file_type_of (the (fst (load_data env0 file_chunks_1_2 True)))) NaN = Inr s \<and>
           data s = the (snd (load_data env0 file_chunks_1_2 True)) \<and>
           materialize file_chunks_1_2 (the (fst (load_data env0 file_chunks_1_2 True)))
              (file_type_of (the (fst (load_data env0 file_chunks_1_2 True)))) (IntVal 0) = Inr s' \<and>
           (rows (the (snd (load_data env0 file_chunks_1_2 True))) ! 1 ! 2 = rows (data s') ! 1 ! 2 \<or>
            (rows (the (snd (load_data env0 file_chunks_1_2 True))) ! 1 ! 2 = NaN \<and>
             rows (data s') ! 1 ! 2 = IntVal 0))"
    unfolding ld option.sel fst_conv snd_conv
    by (rule unwritten_cells_hold_nan[OF ld]) (simp_all add: hint_def nrows_def)
  with nan show ?thesis by (rule conjI)
qed

end
